theory Spec2Isabelle
  imports Complex_Main
begin

section \<open>Scalars, vectors, errors\<close>

text \<open>
  The optimizer of \<^verbatim>\<open>DDP_BASE.h\<close> works on \<^verbatim>\<open>scalar_t = double\<close>. Times, costs,
  merits and learning rates are modelled as real numbers (rounding is ignored). Where the
  source tests a vector with \<^verbatim>\<open>allFinite()\<close>, its components carry the non-finite values
  of the floating-point format as well.
\<close>

datatype fp = FpFinite real | FpPosInf | FpNegInf | FpNaN

fun isfinite :: "fp \<Rightarrow> bool" where
  "isfinite (FpFinite r) = True"
| "isfinite FpPosInf = False"
| "isfinite FpNegInf = False"
| "isfinite FpNaN = False"

type_synonym state_vector_t = "fp list"
type_synonym input_vector_t = "real list"
type_synonym state_matrix_t = "real list list"

definition allFinite :: "state_vector_t \<Rightarrow> bool" where
  "allFinite x = list_all isfinite x"

definition state_vector_Zero :: "nat \<Rightarrow> state_vector_t" where
  "state_vector_Zero n = replicate n (FpFinite 0)"

definition state_matrix_Zero :: "nat \<Rightarrow> state_matrix_t" where
  "state_matrix_Zero n = replicate n (replicate n 0)"

text \<open>One constructor for every \<^verbatim>\<open>throw\<close> of the modelled functions, by its message.\<close>

datatype error =
    ControllersStockSize
  | RolloutUnstable
  | ModelDataSize
  | MaxLearningRateSmallerThanMin
  | NoTimePartition
  | InitialStateNotFinite
  | ZeroPartitions
  | ControllersPtrStockSize
  | ControllerNotLinear
  | InternalControllerIncompatible
  | RewindIndexTooLarge
  | IntegrationKilled
  | Thrown string


text \<open>
  \<^verbatim>\<open>std::numeric_limits<scalar_t>::max()\<close>, the largest finite double
  \<open>(2 - 2\<^sup>-\<^sup>5\<^sup>2) \<sqdot> 2\<^sup>1\<^sup>0\<^sup>2\<^sup>3\<close>.
\<close>

definition scalar_max :: real where
  "scalar_max = (2 - 1 / 2 ^ 52) * 2 ^ 1023"

text \<open>\<^verbatim>\<open>size_t\<close> is 64 bits wide; \<^verbatim>\<open>x.size() - 1\<close> wraps to this value on an empty vector.\<close>

definition SIZE_MAX :: nat where
  "SIZE_MAX = 2 ^ 64 - 1"

definition size_minus_one :: "nat \<Rightarrow> nat" where
  "size_minus_one n = (if n = 0 then SIZE_MAX else n - 1)"

text \<open>
  Modelled from the spec: \<^verbatim>\<open>numerics::almost_ge\<close> is declared outside the source files at
  hand. The spec states the two tests made with it as \<open>maxLR \<ge> minLR\<close> and as stopping
  when \<open>\<alpha> < minLearningRate\<close>, so it is the comparison \<open>\<ge>\<close>.
\<close>

definition almost_ge :: "real \<Rightarrow> real \<Rightarrow> bool" where
  "almost_ge x y = (y \<le> x)"

section \<open>Settings and controllers\<close>

record DDP_Settings =
  nThreads :: nat
  maxNumIterations :: nat
  minRelCost :: real
  minAbsConstraint1ISE :: real
  minRelConstraint1ISE :: real
  maxLearningRate :: real
  minLearningRate :: real
  lineSearchContractionRate :: real
  stateConstraintPenaltyBase :: real
  stateConstraintPenaltyCoeff :: real
  displayInfo :: bool

text \<open>
  Modelled from the spec: the class \<^verbatim>\<open>linear_controller_t\<close> is declared outside the source
  files at hand. By the spec a controller maps each time stamp \<open>\<tau>\<^sub>k\<close> to
  \<open>(K\<^sub>k, b\<^sub>k, \<Delta>b\<^sub>k)\<close>: four parallel arrays. It is empty when it has no time stamp,
  \<^verbatim>\<open>clear()\<close> empties the four arrays, \<^verbatim>\<open>swap\<close> exchanges two controllers.
\<close>

record linear_controller_t =
  timeStamp :: "real list"
  gainArray :: "real list list list"
  biasArray :: "input_vector_t list"
  deltaBiasArray :: "input_vector_t list"

definition controller_empty :: "linear_controller_t \<Rightarrow> bool" where
  "controller_empty c = (timeStamp c = [])"

definition controller_clear :: "linear_controller_t" where
  "controller_clear = \<lparr>timeStamp = [], gainArray = [], biasArray = [], deltaBiasArray = []\<rparr>"

section \<open>Trajectories and the members of the optimizer\<close>

text \<open>
  The source keeps, for the nominal, the cached and each worker's scratch rollout, five
  stocks of equal length (time, post-event indices, state, input, model data), one entry
  per partition. The model keeps one list whose entry for partition \<open>i\<close> holds the five
  entries \<open>[i]\<close>; the five stocks are always resized, cleared and swapped together.
\<close>

record 'md trajectory =
  timeTrajectory :: "real list"
  postEventIndices :: "nat list"
  stateTrajectory :: "state_vector_t list"
  inputTrajectory :: "input_vector_t list"
  modelDataTrajectory :: "'md list"

definition trajectory_clear :: "'md trajectory" where
  "trajectory_clear = \<lparr>timeTrajectory = [], postEventIndices = [], stateTrajectory = [],
     inputTrajectory = [], modelDataTrajectory = []\<rparr>"

text \<open>
  The members of \<^verbatim>\<open>DDP_BASE\<close> that the modelled functions read or write, without the
  trailing underscore of the source. \<open>iteration_\<close> is assigned by \<^verbatim>\<open>runImpl\<close> only and
  is passed to the functions that read it. \<open>killIntegration\<close> is the process-wide flag of
  \<^verbatim>\<open>event_handler_t\<close>. \<open>rolloutCalls\<close> is not a member: it counts the calls of
  \<^verbatim>\<open>rolloutTrajectory\<close>, so that "no rollout was performed" can be stated.
\<close>

record 'md ddp =
  numPartitions :: nat
  partitioningTimes :: "real list"
  initActivePartition :: nat
  finalActivePartition :: nat
  initTime :: real
  finalTime :: real
  initState :: state_vector_t
  rewindCounter :: nat
  learningRateStar :: real
  maxLearningRateMember :: real
  baselineTotalCost :: real
  nominalTotalCost :: real
  stateInputEqConstraintISE :: real
  stateEqConstraintISE :: real
  stateEqFinalConstraintISE :: real
  inequalityConstraintPenalty :: real
  inequalityConstraintISE :: real
  avgTimeStepFP :: fp
  nominalControllersStock :: "linear_controller_t list"
  initLScontrollersStock :: "linear_controller_t list"
  nominalTrajectoriesStock :: "'md trajectory list"
  cachedTrajectoriesStock :: "'md trajectory list"
  SmFinalStock :: "state_matrix_t list"
  SvFinalStock :: "state_vector_t list"
  SveFinalStock :: "state_vector_t list"
  sFinalStock :: "real list"
  xFinalStock :: "state_vector_t list"
  iterationCost :: "real list"
  iterationISE1 :: "real list"
  iterationISE2 :: "real list"
  alphaExpNext :: nat
  alphaProcessed :: "bool list"
  killIntegration :: bool
  rolloutCalls :: nat

section \<open>The merit function\<close>

text \<open>\<^verbatim>\<open>calculateRolloutMerit\<close>, lines 553 to 566.\<close>

definition calculateRolloutMerit ::
  "DDP_Settings \<Rightarrow> nat \<Rightarrow> real \<Rightarrow> real \<Rightarrow> real \<Rightarrow> real \<Rightarrow> real \<Rightarrow> real" where
  "calculateRolloutMerit st iter cost ise1 ise2 ise2Final ineqPenalty =
     (let merit = cost;
          stateConstraintPenalty = stateConstraintPenaltyCoeff st * stateConstraintPenaltyBase st ^ iter;
          merit = merit + 0.5 * stateConstraintPenalty * (ise2 + ise2Final);
          merit = merit + ineqPenalty
      in merit)"

section \<open>Evaluating a rollout\<close>

text \<open>
  The five scalars that \<^verbatim>\<open>calculateRolloutConstraintsISE\<close> writes, in the order of its
  parameters.
\<close>

record constraints_ise =
  ise_stateInputEq :: real
  ise_stateEq :: real
  ise_stateEqFinal :: real
  ise_inequality :: real
  penalty_inequality :: real

text \<open>
  The line search and \<^verbatim>\<open>runInit\<close> reach the dynamics, the constraints and the cost only
  through three member functions, which are parameters here:
  \<^item> \<open>ev_rollout\<close> is \<^verbatim>\<open>rolloutTrajectory\<close> as a function of the controller stock it is
    given (the times, the initial state and the mode schedule do not change during a
    line search). It returns the average time step and the five output stocks, or
    throws; a throw leaves the output stocks partly written, and that content is
    returned with the error.
  \<^item> \<open>ev_constraintsISE\<close> is \<^verbatim>\<open>calculateRolloutConstraintsISE\<close>; it throws, before it
    writes any of its outputs, when a constraint count exceeds the input dimension.
  \<^item> \<open>ev_cost\<close> is \<^verbatim>\<open>calculateRolloutCost\<close>; it returns the cost or throws, as the cost
    functions of the user may do.
  Every worker owns clones of the same objects, so the thread index is left out.
\<close>

record 'md evaluator =
  ev_rollout :: "linear_controller_t list \<Rightarrow>
     (error \<times> 'md trajectory list) + (fp \<times> 'md trajectory list)"
  ev_constraintsISE :: "'md trajectory list \<Rightarrow> error + constraints_ise"
  ev_cost :: "'md trajectory list \<Rightarrow> error + real"

text \<open>The merit of a rollout as the spec states it, with the penalty counted once.\<close>

definition merit_spec :: "DDP_Settings \<Rightarrow> nat \<Rightarrow> real \<Rightarrow> constraints_ise \<Rightarrow> real" where
  "merit_spec st iter cost ise =
     cost
     + (1 / 2) * (stateConstraintPenaltyCoeff st * stateConstraintPenaltyBase st ^ iter)
         * (ise_stateEq ise + ise_stateEqFinal ise)
     + penalty_inequality ise"

text \<open>\<^verbatim>\<open>baselineRollout\<close>, lines 783 to 815. A throw of the rollout or of the evaluation leaves it.\<close>

definition baselineRollout ::
  "'md evaluator \<Rightarrow> DDP_Settings \<Rightarrow> nat \<Rightarrow> 'md ddp \<Rightarrow> error + 'md ddp" where
  "baselineRollout ev st iter s =
     (case ev_rollout ev (nominalControllersStock s) of
        Inl (e, partial) \<Rightarrow> Inl e
      | Inr (avg, traj) \<Rightarrow>
          (case ev_constraintsISE ev traj of
             Inl e \<Rightarrow> Inl e
           | Inr ise \<Rightarrow>
               (case ev_cost ev traj of
                  Inl e \<Rightarrow> Inl e
                | Inr cost \<Rightarrow>
                    (let merit = calculateRolloutMerit st iter cost (ise_stateInputEq ise)
                                   (ise_stateEq ise) (ise_stateEqFinal ise) (penalty_inequality ise)
                     in Inr (s\<lparr>avgTimeStepFP := avg,
                               nominalTrajectoriesStock := traj,
                               rolloutCalls := rolloutCalls s + 1,
                               stateInputEqConstraintISE := ise_stateInputEq ise,
                               stateEqConstraintISE := ise_stateEq ise,
                               stateEqFinalConstraintISE := ise_stateEqFinal ise,
                               inequalityConstraintISE := ise_inequality ise,
                               inequalityConstraintPenalty := penalty_inequality ise,
                               nominalTotalCost := merit\<rparr>)))))"

text \<open>
  The block of \<^verbatim>\<open>runInit\<close> that computes the performance indices of the initial rollout,
  lines 1643 to 1663, on the nominal trajectories that the rollout of \<^verbatim>\<open>runInit\<close> has
  stored. \<^verbatim>\<open>runInit\<close> runs at \<open>iteration_ = 0\<close>; nothing after the block assigns
  \<open>nominalTotalCost_\<close>, and \<^verbatim>\<open>runImpl\<close> appends its value to \<open>iterationCost_\<close>.
\<close>

definition runInit_performanceIndex ::
  "'md evaluator \<Rightarrow> DDP_Settings \<Rightarrow> nat \<Rightarrow> 'md ddp \<Rightarrow> error + 'md ddp" where
  "runInit_performanceIndex ev st iter s =
     (let computePerformanceIndex = (displayInfo st \<or> maxNumIterations st > 1) in
      if computePerformanceIndex then
        (case ev_constraintsISE ev (nominalTrajectoriesStock s) of
           Inl e \<Rightarrow> Inl e
         | Inr ise \<Rightarrow>
             (case ev_cost ev (nominalTrajectoriesStock s) of
                Inl e \<Rightarrow> Inl e
              | Inr cost \<Rightarrow>
                  (let cost = cost + penalty_inequality ise;
                       merit = calculateRolloutMerit st iter cost (ise_stateInputEq ise)
                                 (ise_stateEq ise) (ise_stateEqFinal ise) (penalty_inequality ise)
                   in Inr (s\<lparr>stateInputEqConstraintISE := ise_stateInputEq ise,
                             stateEqConstraintISE := ise_stateEq ise,
                             stateEqFinalConstraintISE := ise_stateEqFinal ise,
                             inequalityConstraintISE := ise_inequality ise,
                             inequalityConstraintPenalty := penalty_inequality ise,
                             nominalTotalCost := merit\<rparr>))))
      else
        Inr (s\<lparr>nominalTotalCost := 0,
                stateInputEqConstraintISE := 0,
                stateEqConstraintISE := 0,
                stateEqFinalConstraintISE := 0\<rparr>))"

section \<open>The worker of the line search\<close>

text \<open>The local variables of \<^verbatim>\<open>lineSearchTask\<close>, declared before its loop.\<close>

record 'md ls_locals =
  l_totalCost :: real
  l_stateInputEqConstraintISE :: real
  l_stateEqConstraintISE :: real
  l_stateEqFinalConstraintISE :: real
  l_inequalityConstraintPenalty :: real
  l_inequalityConstraintISE :: real
  l_controllersStock :: "linear_controller_t list"
  l_trajectoriesStock :: "'md trajectory list"

text \<open>\<^verbatim>\<open>biasArray_[k] += learningRate * deltaBiasArray_[k]\<close> on Eigen vectors.\<close>

definition vector_axpy :: "real \<Rightarrow> input_vector_t \<Rightarrow> input_vector_t \<Rightarrow> input_vector_t" where
  "vector_axpy a d b = map2 (\<lambda>bi di. bi + a * di) b d"

definition incrementBias :: "real \<Rightarrow> linear_controller_t \<Rightarrow> linear_controller_t" where
  "incrementBias learningRate c =
     foldl (\<lambda>c k. c\<lparr>biasArray :=
                      (biasArray c)[k := vector_axpy learningRate (deltaBiasArray c ! k) (biasArray c ! k)]\<rparr>)
       c [0..<length (timeStamp c)]"

definition incrementBiasStock ::
  "nat \<Rightarrow> real \<Rightarrow> linear_controller_t list \<Rightarrow> linear_controller_t list" where
  "incrementBiasStock n learningRate cs =
     foldl (\<lambda>cs i. cs[i := incrementBias learningRate (cs ! i)]) cs [0..<n]"

text \<open>
  \<^verbatim>\<open>lineSearchWorker\<close>, lines 922 to 975, on the local variables of the calling task. The
  rollout, the constraint evaluation and the cost evaluation are in one \<^verbatim>\<open>try\<close> block; its
  \<^verbatim>\<open>catch\<close> block assigns \<^verbatim>\<open>std::numeric_limits<scalar_t>::max()\<close> to the total cost.
\<close>

definition lineSearchWorker ::
  "'md evaluator \<Rightarrow> DDP_Settings \<Rightarrow> nat \<Rightarrow> nat \<Rightarrow> real \<Rightarrow> 'md ls_locals \<Rightarrow> 'md ls_locals" where
  "lineSearchWorker ev st iter n learningRate l =
     (let l = l\<lparr>l_controllersStock := incrementBiasStock n learningRate (l_controllersStock l)\<rparr> in
      case ev_rollout ev (l_controllersStock l) of
        Inl (e, partial) \<Rightarrow> l\<lparr>l_trajectoriesStock := partial, l_totalCost := scalar_max\<rparr>
      | Inr (avg, traj) \<Rightarrow>
          (let l = l\<lparr>l_trajectoriesStock := traj\<rparr> in
           case ev_constraintsISE ev traj of
             Inl e \<Rightarrow> l\<lparr>l_totalCost := scalar_max\<rparr>
           | Inr ise \<Rightarrow>
               (let l = l\<lparr>l_stateInputEqConstraintISE := ise_stateInputEq ise,
                           l_stateEqConstraintISE := ise_stateEq ise,
                           l_stateEqFinalConstraintISE := ise_stateEqFinal ise,
                           l_inequalityConstraintISE := ise_inequality ise,
                           l_inequalityConstraintPenalty := penalty_inequality ise\<rparr> in
                case ev_cost ev traj of
                  Inl e \<Rightarrow> l\<lparr>l_totalCost := scalar_max\<rparr>
                | Inr cost \<Rightarrow>
                    l\<lparr>l_totalCost := calculateRolloutMerit st iter cost (ise_stateInputEq ise)
                                         (ise_stateEq ise) (ise_stateEqFinal ise)
                                         (penalty_inequality ise)\<rparr>)))"

text \<open>
  The same worker when the kill flag of the integrators cancels its rollout: the
  integrator throws, the output stocks are left partly written (\<open>partial\<close>).
\<close>

definition lineSearchWorker_killed ::
  "nat \<Rightarrow> real \<Rightarrow> 'md trajectory list \<Rightarrow> 'md ls_locals \<Rightarrow> 'md ls_locals" where
  "lineSearchWorker_killed n learningRate partial l =
     (let l = l\<lparr>l_controllersStock := incrementBiasStock n learningRate (l_controllersStock l)\<rparr>
      in l\<lparr>l_trajectoriesStock := partial, l_totalCost := scalar_max\<rparr>)"

section \<open>The outer loop of \<^verbatim>\<open>runImpl\<close>\<close>

text \<open>\<^verbatim>\<open>swapNominalTrajectoriesToCache\<close>, lines 1131 to 1138.\<close>

definition swapNominalTrajectoriesToCache :: "'md ddp \<Rightarrow> 'md ddp" where
  "swapNominalTrajectoriesToCache s =
     s\<lparr>cachedTrajectoriesStock := nominalTrajectoriesStock s,
       nominalTrajectoriesStock := cachedTrajectoriesStock s\<rparr>"

text \<open>
  The variables of \<^verbatim>\<open>runImpl\<close> that live across the passes of its main loop, with the
  members. \<^verbatim>\<open>relCost\<close> and \<^verbatim>\<open>relConstraint1ISE\<close> are assigned in every pass before
  they are read and are bound inside the pass.
\<close>

record 'md loop_state =
  iteration :: nat
  members :: "'md ddp"
  isLearningRateStarZero :: bool
  isCostFunctionConverged :: bool
  isConstraint1Satisfied :: bool
  isOptimizationConverged :: bool
  isInitInternalControllerEmpty :: bool

text \<open>
  One pass of the main loop, lines 1862 to 1896. \<^verbatim>\<open>runIteration\<close> is a parameter: it reads
  the iteration counter and changes the members, or throws.
\<close>

definition mainLoop_pass ::
  "(nat \<Rightarrow> 'md ddp \<Rightarrow> error + 'md ddp) \<Rightarrow> DDP_Settings \<Rightarrow> 'md loop_state \<Rightarrow> error + 'md loop_state" where
  "mainLoop_pass runIteration st ls =
     (let iter = iteration ls + 1;
          cachedCost = nominalTotalCost (members ls);
          cachedStateInputEqConstraintISE = stateInputEqConstraintISE (members ls);
          m = swapNominalTrajectoriesToCache (members ls)
      in case runIteration iter m of
           Inl e \<Rightarrow> Inl e
         | Inr m \<Rightarrow>
             (let m = m\<lparr>iterationCost := iterationCost m @ [nominalTotalCost m],
                        iterationISE1 := iterationISE1 m @ [stateInputEqConstraintISE m],
                        iterationISE2 := iterationISE2 m @ [stateEqConstraintISE m]\<rparr>;
                  relCost = \<bar>nominalTotalCost m - cachedCost\<bar>;
                  relConstraint1ISE = \<bar>stateInputEqConstraintISE m - cachedStateInputEqConstraintISE\<bar>;
                  c1 = (stateInputEqConstraintISE m \<le> minAbsConstraint1ISE st
                          \<or> relConstraint1ISE \<le> minRelConstraint1ISE st);
                  lr0 = (learningRateStar m = 0 \<and> \<not> isInitInternalControllerEmpty ls);
                  cc = (relCost \<le> minRelCost st \<or> lr0)
              in Inr \<lparr>iteration = iter, members = m,
                      isLearningRateStarZero = lr0,
                      isCostFunctionConverged = cc,
                      isConstraint1Satisfied = c1,
                      isOptimizationConverged = (cc \<and> c1),
                      isInitInternalControllerEmpty = False\<rparr>))"

lemma mainLoop_pass_iteration:
  "mainLoop_pass runIteration st ls = Inr ls' \<Longrightarrow> iteration ls' = iteration ls + 1"
  by (auto simp: mainLoop_pass_def Let_def split: sum.splits)

text \<open>The condition of the main loop, line 1861.\<close>

definition mainLoop_continues :: "DDP_Settings \<Rightarrow> 'md loop_state \<Rightarrow> bool" where
  "mainLoop_continues st ls =
     (iteration ls + 1 < maxNumIterations st \<and> \<not> isOptimizationConverged ls)"

text \<open>The main loop, lines 1860 to 1898.\<close>

function mainLoop ::
  "(nat \<Rightarrow> 'md ddp \<Rightarrow> error + 'md ddp) \<Rightarrow> DDP_Settings \<Rightarrow> 'md loop_state \<Rightarrow> error + 'md loop_state" where
  "mainLoop runIteration st ls =
     (if mainLoop_continues st ls then
        (case mainLoop_pass runIteration st ls of
           Inl e \<Rightarrow> Inl e
         | Inr ls' \<Rightarrow> mainLoop runIteration st ls')
      else Inr ls)"
  by pat_completeness auto
termination
  by (relation "measure (\<lambda>(r, st, ls). maxNumIterations st - iteration ls)")
     (auto simp: mainLoop_continues_def dest: mainLoop_pass_iteration)

text \<open>
  The same loop, keeping the state at the end of every pass it makes (the last one is the
  state the loop ends with) and the error that ended it, if any.
\<close>

function mainLoop_passes ::
  "(nat \<Rightarrow> 'md ddp \<Rightarrow> error + 'md ddp) \<Rightarrow> DDP_Settings \<Rightarrow> 'md loop_state
     \<Rightarrow> 'md loop_state list \<times> error option" where
  "mainLoop_passes runIteration st ls =
     (if mainLoop_continues st ls then
        (case mainLoop_pass runIteration st ls of
           Inl e \<Rightarrow> ([], Some e)
         | Inr ls' \<Rightarrow>
             (case mainLoop_passes runIteration st ls' of (tr, r) \<Rightarrow> (ls' # tr, r)))
      else ([], None))"
  by pat_completeness auto
termination
  by (relation "measure (\<lambda>(r, st, ls). maxNumIterations st - iteration ls)")
     (auto simp: mainLoop_continues_def dest: mainLoop_pass_iteration)

declare mainLoop.simps [simp del] mainLoop_passes.simps [simp del]

text \<open>
  The loop state with which \<^verbatim>\<open>runImpl\<close> enters the main loop, lines 1831 to 1858: the
  flag is computed from the controller stock as it is before \<^verbatim>\<open>runInit\<close>, over all
  partitions.
\<close>

definition anyControllerEmpty :: "linear_controller_t list \<Rightarrow> bool" where
  "anyControllerEmpty cs = foldl (\<lambda>b c. b \<or> controller_empty c) False cs"

definition mainLoop_entry :: "linear_controller_t list \<Rightarrow> 'md ddp \<Rightarrow> 'md loop_state" where
  "mainLoop_entry initialStock m =
     \<lparr>iteration = 0, members = m,
      isLearningRateStarZero = False,
      isCostFunctionConverged = False,
      isConstraint1Satisfied = False,
      isOptimizationConverged = False,
      isInitInternalControllerEmpty = anyControllerEmpty initialStock\<rparr>"

section \<open>Input validation and set-up in \<^verbatim>\<open>runImpl\<close>\<close>






section \<open>Rewinding\<close>

definition swap_entries :: "nat \<Rightarrow> nat \<Rightarrow> 'a list \<Rightarrow> 'a list" where
  "swap_entries i j xs = xs[i := xs ! j, j := xs ! i]"

text \<open>The body of the loop of \<^verbatim>\<open>rewindOptimizer\<close> for partition \<open>i\<close>, lines 1480 to 1494.\<close>

definition rewind_partition :: "nat \<Rightarrow> nat \<Rightarrow> nat \<Rightarrow> 'md ddp \<Rightarrow> nat \<Rightarrow> 'md ddp" where
  "rewind_partition stateDim firstIndex preservedLength s i =
     (if i < preservedLength then
        s\<lparr>nominalControllersStock := swap_entries i (firstIndex + i) (nominalControllersStock s),
          SmFinalStock := (SmFinalStock s)[i := SmFinalStock s ! (firstIndex + i)],
          SvFinalStock := (SvFinalStock s)[i := SvFinalStock s ! (firstIndex + i)],
          SveFinalStock := (SveFinalStock s)[i := SveFinalStock s ! (firstIndex + i)],
          sFinalStock := (sFinalStock s)[i := sFinalStock s ! (firstIndex + i)],
          xFinalStock := (xFinalStock s)[i := xFinalStock s ! (firstIndex + i)]\<rparr>
      else
        s\<lparr>nominalControllersStock := (nominalControllersStock s)[i := controller_clear],
          SmFinalStock := (SmFinalStock s)[i := state_matrix_Zero stateDim],
          SvFinalStock := (SvFinalStock s)[i := state_vector_Zero stateDim],
          SveFinalStock := (SveFinalStock s)[i := state_vector_Zero stateDim],
          sFinalStock := (sFinalStock s)[i := 0],
          xFinalStock := (xFinalStock s)[i := state_vector_Zero stateDim]\<rparr>)"

text \<open>
  \<^verbatim>\<open>rewindOptimizer\<close>, lines 1464 to 1496. The counter is an \<^verbatim>\<open>unsigned long long\<close>.
\<close>

definition rewindOptimizer :: "nat \<Rightarrow> nat \<Rightarrow> 'md ddp \<Rightarrow> error option \<times> 'md ddp" where
  "rewindOptimizer stateDim firstIndex s =
     (if firstIndex = 0 then (None, s)
      else
        (let s = s\<lparr>rewindCounter := (rewindCounter s + firstIndex) mod 2 ^ 64\<rparr> in
         if firstIndex > numPartitions s then (Some RewindIndexTooLarge, s)
         else
           (let preservedLength = numPartitions s - firstIndex
            in (None, foldl (rewind_partition stateDim firstIndex preservedLength) s [0..<numPartitions s]))))"

text \<open>
  The entries for partition \<open>i\<close> of the six stocks that \<^verbatim>\<open>rewindOptimizer\<close> assigns: the
  controller and the terminal values \<open>(Sm, Sv, Sve, s, xFinal)\<close> of the Riccati equations.
\<close>

definition controller_and_seed ::
  "'md ddp \<Rightarrow> nat \<Rightarrow> linear_controller_t \<times> state_matrix_t \<times> state_vector_t \<times> state_vector_t \<times> real \<times> state_vector_t" where
  "controller_and_seed s i =
     (nominalControllersStock s ! i, SmFinalStock s ! i, SvFinalStock s ! i, SveFinalStock s ! i,
      sFinalStock s ! i, xFinalStock s ! i)"

definition controller_and_seed_zero ::
  "nat \<Rightarrow> linear_controller_t \<times> state_matrix_t \<times> state_vector_t \<times> state_vector_t \<times> real \<times> state_vector_t" where
  "controller_and_seed_zero stateDim =
     (controller_clear, state_matrix_Zero stateDim, state_vector_Zero stateDim, state_vector_Zero stateDim, 0,
      state_vector_Zero stateDim)"

definition stocks_sized :: "'md ddp \<Rightarrow> bool" where
  "stocks_sized s =
     (length (nominalControllersStock s) = numPartitions s \<and>
      length (SmFinalStock s) = numPartitions s \<and>
      length (SvFinalStock s) = numPartitions s \<and>
      length (SveFinalStock s) = numPartitions s \<and>
      length (sFinalStock s) = numPartitions s \<and>
      length (xFinalStock s) = numPartitions s)"

text \<open>
  The data of partition \<open>i\<close> as the spec lists them: the controller, the terminal values of
  the Riccati equations, the nominal trajectory and the cached trajectory.
\<close>

definition partition_data ::
  "'md ddp \<Rightarrow> nat \<Rightarrow>
     (linear_controller_t \<times> state_matrix_t \<times> state_vector_t \<times> state_vector_t \<times> real \<times> state_vector_t)
     \<times> 'md trajectory \<times> 'md trajectory" where
  "partition_data s i =
     (controller_and_seed s i, nominalTrajectoriesStock s ! i, cachedTrajectoriesStock s ! i)"

section \<open>The rollout driver\<close>

text \<open>
  The integrators (\<^verbatim>\<open>rollout_base_t::run\<close> of the dynamics and of the operating
  trajectories) are collaborators outside the source files at hand and are parameters:
  \<open>run t0 x0 tf controller eventTimes\<close> returns the final state and the segment it
  produced (time, post-event indices, state, input, model data), or throws and leaves a
  partly written segment.
\<close>

type_synonym 'md rollout_run =
  "real \<Rightarrow> state_vector_t \<Rightarrow> real \<Rightarrow> linear_controller_t option \<Rightarrow> real list
     \<Rightarrow> (error \<times> 'md trajectory) + (state_vector_t \<times> 'md trajectory)"

text \<open>The scan for the last available controller, lines 188 to 198; it breaks at the first empty one.\<close>

fun controllerScan :: "linear_controller_t list \<Rightarrow> nat list \<Rightarrow> real \<times> nat \<Rightarrow> real \<times> nat" where
  "controllerScan cs [] acc = acc"
| "controllerScan cs (i # is) acc =
     (if \<not> controller_empty (cs ! i)
      then controllerScan cs is (last (timeStamp (cs ! i)), i)
      else acc)"

definition controllerAvailableTill :: "'md ddp \<Rightarrow> linear_controller_t list \<Rightarrow> real" where
  "controllerAvailableTill s cs =
     fst (controllerScan cs [initActivePartition s..<finalActivePartition s + 1]
            (initTime s, initActivePartition s))"

definition partitionOfLastController :: "'md ddp \<Rightarrow> linear_controller_t list \<Rightarrow> nat" where
  "partitionOfLastController s cs =
     snd (controllerScan cs [initActivePartition s..<finalActivePartition s + 1]
            (initTime s, initActivePartition s))"

text \<open>Till where the controller is used, lines 200 to 215; the loop over the event times breaks at the first hit.\<close>

definition useControllerTill :: "'md ddp \<Rightarrow> real list \<Rightarrow> linear_controller_t list \<Rightarrow> real" where
  "useControllerTill s eventTimes cs =
     (if \<not> controller_empty (cs ! initActivePartition s) then
        (case find (\<lambda>eventTime. eventTime \<ge> controllerAvailableTill s cs) eventTimes of
           Some eventTime \<Rightarrow> min eventTime (finalTime s)
         | None \<Rightarrow> finalTime s)
      else initTime s)"

text \<open>\<^verbatim>\<open>pop_back\<close> on the four sample arrays of a partition, lines 262 to 265.\<close>

definition pop_back_sample :: "'md trajectory \<Rightarrow> 'md trajectory" where
  "pop_back_sample tr =
     tr\<lparr>timeTrajectory := butlast (timeTrajectory tr),
        stateTrajectory := butlast (stateTrajectory tr),
        inputTrajectory := butlast (inputTrajectory tr),
        modelDataTrajectory := butlast (modelDataTrajectory tr)\<rparr>"

text \<open>The concatenation of the operating-point tail, lines 278 to 290.\<close>

definition appendTail :: "'md trajectory \<Rightarrow> 'md trajectory \<Rightarrow> 'md trajectory" where
  "appendTail tr tail =
     \<lparr>timeTrajectory = timeTrajectory tr @ timeTrajectory tail,
      postEventIndices = postEventIndices tr
         @ map (\<lambda>eventIndex. eventIndex + length (stateTrajectory tr)) (postEventIndices tail),
      stateTrajectory = stateTrajectory tr @ stateTrajectory tail,
      inputTrajectory = inputTrajectory tr @ inputTrajectory tail,
      modelDataTrajectory = modelDataTrajectory tr @ modelDataTrajectory tail\<rparr>"

text \<open>The operating-point rollout of a partition whose operating-point interval is not empty, lines 256 to 290.\<close>

definition finishWithOperatingPoints ::
  "'md rollout_run \<Rightarrow> real list \<Rightarrow> real \<Rightarrow> real \<Rightarrow> state_vector_t \<Rightarrow> 'md trajectory
     \<Rightarrow> (error \<times> 'md trajectory) + (state_vector_t \<times> 'md trajectory)" where
  "finishWithOperatingPoints opRun eventTimes opFrom opTo xCurrent tr =
     (let pastEvent = (postEventIndices tr \<noteq> []
                        \<and> last (postEventIndices tr) = size_minus_one (length (timeTrajectory tr)));
          opFrom = (if pastEvent then last (timeTrajectory tr) else opFrom);
          tr = (if pastEvent then pop_back_sample tr else tr)
      in case opRun opFrom xCurrent opTo None eventTimes of
           Inl (e, partial) \<Rightarrow> Inl (e, tr)
         | Inr (x, tail) \<Rightarrow> Inr (x, appendTail tr tail))"

text \<open>The controller part of a partition, lines 246 to 252.\<close>

definition controllerRollout ::
  "'md rollout_run \<Rightarrow> real list \<Rightarrow> linear_controller_t \<Rightarrow> real \<times> real \<Rightarrow> nat
     \<Rightarrow> state_vector_t \<times> 'md trajectory list
     \<Rightarrow> (error \<times> 'md trajectory list) + (state_vector_t \<times> 'md trajectory list)" where
  "controllerRollout dynRun eventTimes controller fromTo i xs =
     (case xs of (xCurrent, stock) \<Rightarrow>
        if fst fromTo < snd fromTo then
          (case dynRun (fst fromTo) xCurrent (snd fromTo) (Some controller) eventTimes of
             Inl (e, partial) \<Rightarrow> Inl (e, stock[i := partial])
           | Inr (x, seg) \<Rightarrow> Inr (x, stock[i := seg]))
        else Inr (xCurrent, stock))"

text \<open>The operating-point part of a partition, lines 254 to 291.\<close>

definition operatingPointsRollout ::
  "'md rollout_run \<Rightarrow> real list \<Rightarrow> real \<times> real \<Rightarrow> nat
     \<Rightarrow> state_vector_t \<times> 'md trajectory list
     \<Rightarrow> (error \<times> 'md trajectory list) + (state_vector_t \<times> 'md trajectory list)" where
  "operatingPointsRollout opRun eventTimes fromTo i xs =
     (case xs of (xCurrent, stock) \<Rightarrow>
        if fst fromTo < snd fromTo then
          (case finishWithOperatingPoints opRun eventTimes (fst fromTo) (snd fromTo) xCurrent
                  (stock ! i) of
             Inl (e, tr) \<Rightarrow> Inl (e, stock[i := tr])
           | Inr (x, tr) \<Rightarrow> Inr (x, stock[i := tr]))
        else Inr (xCurrent, stock))"

text \<open>
  The body of the loop over the active partitions, lines 225 to 295. The accumulator
  holds \<^verbatim>\<open>numSteps\<close>, \<^verbatim>\<open>xCurrent\<close> and the output stocks.
\<close>

definition rolloutPartition ::
  "'md rollout_run \<Rightarrow> 'md rollout_run \<Rightarrow> real list \<Rightarrow> 'md ddp \<Rightarrow> linear_controller_t list \<Rightarrow> nat
     \<Rightarrow> nat \<times> state_vector_t \<times> 'md trajectory list
     \<Rightarrow> (error \<times> 'md trajectory list) + (nat \<times> state_vector_t \<times> 'md trajectory list)" where
  "rolloutPartition dynRun opRun eventTimes s cs i acc =
     (case acc of (numSteps, xCurrent, stock) \<Rightarrow>
      (let t0 = (if i = initActivePartition s then initTime s else partitioningTimes s ! i);
           tf = (if i = finalActivePartition s then finalTime s else partitioningTimes s ! (i + 1));
           controllerRolloutFromTo = (t0, max t0 (min (useControllerTill s eventTimes cs) tf));
           operatingPointsFromTo = (snd controllerRolloutFromTo, tf)
       in case controllerRollout dynRun eventTimes (cs ! min i (partitionOfLastController s cs))
                 controllerRolloutFromTo i (xCurrent, stock) of
            Inl err \<Rightarrow> Inl err
          | Inr xs \<Rightarrow>
              (case operatingPointsRollout opRun eventTimes operatingPointsFromTo i xs of
                 Inl err \<Rightarrow> Inl err
               | Inr (xCurrent, stock) \<Rightarrow>
                   Inr (numSteps + length (timeTrajectory (stock ! i)), xCurrent, stock))))"

fun rolloutPartitions ::
  "'md rollout_run \<Rightarrow> 'md rollout_run \<Rightarrow> real list \<Rightarrow> 'md ddp \<Rightarrow> linear_controller_t list \<Rightarrow> nat list
     \<Rightarrow> nat \<times> state_vector_t \<times> 'md trajectory list
     \<Rightarrow> (error \<times> 'md trajectory list) + (nat \<times> state_vector_t \<times> 'md trajectory list)" where
  "rolloutPartitions dynRun opRun eventTimes s cs [] acc = Inr acc"
| "rolloutPartitions dynRun opRun eventTimes s cs (i # is) acc =
     (case rolloutPartition dynRun opRun eventTimes s cs i acc of
        Inl err \<Rightarrow> Inl err
      | Inr acc' \<Rightarrow> rolloutPartitions dynRun opRun eventTimes s cs is acc')"

text \<open>
  \<^verbatim>\<open>(finalTime_ - initTime_) / numSteps\<close> in floating point: a division by zero gives an
  infinity or NaN.
\<close>

definition averageTimeStep :: "real \<Rightarrow> nat \<Rightarrow> fp" where
  "averageTimeStep d numSteps =
     (if numSteps = 0 then (if d = 0 then FpNaN else if d > 0 then FpPosInf else FpNegInf)
      else FpFinite (d / real numSteps))"

text \<open>
  \<^verbatim>\<open>rolloutTrajectory\<close>, lines 163 to 318. It returns the average time step and the output
  stocks; when it throws, the error and the output stocks as they are then.
\<close>

definition rolloutTrajectory ::
  "'md rollout_run \<Rightarrow> 'md rollout_run \<Rightarrow> real list \<Rightarrow> 'md ddp \<Rightarrow> linear_controller_t list
     \<Rightarrow> 'md trajectory list
     \<Rightarrow> (error \<times> 'md trajectory list) + (fp \<times> 'md trajectory list)" where
  "rolloutTrajectory dynRun opRun eventTimes s controllersStock out =
     (if length controllersStock \<noteq> numPartitions s then Inl (ControllersStockSize, out)
      else
        (case rolloutPartitions dynRun opRun eventTimes s controllersStock
                [initActivePartition s..<finalActivePartition s + 1]
                (0, initState s, replicate (numPartitions s) trajectory_clear) of
           Inl err \<Rightarrow> Inl err
         | Inr (numSteps, xCurrent, stock) \<Rightarrow>
             if \<not> allFinite xCurrent then Inl (RolloutUnstable, stock)
             else if list_ex (\<lambda>i. length (modelDataTrajectory (stock ! i)) \<noteq> length (timeTrajectory (stock ! i)))
                       [initActivePartition s..<finalActivePartition s + 1]
               then Inl (ModelDataSize, stock)
               else Inr (averageTimeStep (finalTime s - initTime s) numSteps, stock)))"

text \<open>
  Modelled from the spec: what an integrator returns (the integrators are outside the
  source files at hand). By the spec a run over \<open>[t0, t1]\<close> produces the samples of a
  trajectory that starts at \<open>t0\<close>, with one state per time stamp, and at each event it
  honours two samples with identical time stamp, recording the index of the second one
  as post-event index.
\<close>

definition events_duplicated :: "'md trajectory \<Rightarrow> bool" where
  "events_duplicated tr =
     list_all (\<lambda>j. 0 < j \<and> j < length (timeTrajectory tr)
                  \<and> timeTrajectory tr ! (j - 1) = timeTrajectory tr ! j) (postEventIndices tr)"

definition segment_ok :: "real \<Rightarrow> 'md trajectory \<Rightarrow> bool" where
  "segment_ok t0 tr =
     (timeTrajectory tr \<noteq> [] \<and> hd (timeTrajectory tr) = t0
      \<and> length (stateTrajectory tr) = length (timeTrajectory tr)
      \<and> events_duplicated tr)"

definition integrator_contract :: "'md rollout_run \<Rightarrow> bool" where
  "integrator_contract run =
     (\<forall>t0 x0 t1 c eventTimes x tr.
        run t0 x0 t1 c eventTimes = Inr (x, tr) \<longrightarrow> segment_ok t0 tr)"

text \<open>
  A small integrator for running the driver on concrete inputs: it holds the state,
  samples the two ends of the interval, and honours the first event in \<open>(t0, t1]\<close>.
\<close>

definition holdRun :: "unit rollout_run" where
  "holdRun t0 x0 t1 c eventTimes =
     (let u = (case c of None \<Rightarrow> [] | Some k \<Rightarrow> (if biasArray k = [] then [] else hd (biasArray k)));
          ts = (case find (\<lambda>e. t0 < e \<and> e \<le> t1) eventTimes of
                  None \<Rightarrow> [t0, t1]
                | Some e \<Rightarrow> if e = t1 then [t0, t1, t1] else [t0, e, e, t1]);
          ev = (case find (\<lambda>e. t0 < e \<and> e \<le> t1) eventTimes of None \<Rightarrow> [] | Some e \<Rightarrow> [2])
      in Inr (x0, \<lparr>timeTrajectory = ts, postEventIndices = ev,
                   stateTrajectory = map (\<lambda>t. x0) ts,
                   inputTrajectory = map (\<lambda>t. u) ts,
                   modelDataTrajectory = map (\<lambda>t. ()) ts\<rparr>))"

section \<open>The line search\<close>

text \<open>
  \<^verbatim>\<open>lineSearch\<close> runs \<^verbatim>\<open>lineSearchTask\<close> on \<open>nThreads\<close> threads. A task is modelled by
  its local variables and the place it has reached; one step of a task is the code
  between two places. The places are chosen so that a step reads or writes the shared
  members at one point only:
  \<^item> \<open>AtLoopHead\<close>: before \<^verbatim>\<open>alphaExpNext_++\<close> (atomic), line 837;
  \<^item> \<open>AtSkipTest\<close>: before the read of \<open>learningRateStar_\<close>, line 850;
  \<^item> \<open>AtWorker\<close>: before the call of \<^verbatim>\<open>lineSearchWorker\<close>, line 862;
  \<^item> \<open>AtLock\<close>: before the block guarded by \<open>lineSearchResultMutex_\<close>, line 868;
  \<^item> \<open>AtKill\<close>: before \<^verbatim>\<open>activateKillIntegration\<close>, line 909;
  \<^item> \<open>TaskReturned\<close>: after the loop.
\<close>

datatype ls_place =
    AtLoopHead
  | AtSkipTest nat real
  | AtWorker nat real
  | AtLock nat real
  | AtKill
  | TaskReturned

record 'md ls_task =
  place :: ls_place
  locals :: "'md ls_locals"

text \<open>The test of the greedy learning rate selection, line 876.\<close>

definition lineSearch_accepts :: "'md ddp \<Rightarrow> real \<Rightarrow> real \<Rightarrow> bool" where
  "lineSearch_accepts s totalCost learningRate =
     (totalCost < baselineTotalCost s * (1 - 0.001 * learningRate)
      \<and> learningRate > learningRateStar s)"

text \<open>
  One step of a task on the shared members. \<open>intr\<close> says whether the integrators of this
  task see the kill flag during the rollout of the step, and what the cancelled rollout
  leaves in the output stocks; the flag has an effect only when it is set.
\<close>

definition lineSearchTask_step ::
  "'md evaluator \<Rightarrow> DDP_Settings \<Rightarrow> nat \<Rightarrow> 'md trajectory list option
     \<Rightarrow> 'md ddp \<times> 'md ls_task \<Rightarrow> 'md ddp \<times> 'md ls_task" where
  "lineSearchTask_step ev st iter intr cfg =
     (case cfg of (s, t) \<Rightarrow>
      (case place t of
         AtLoopHead \<Rightarrow>
           (let alphaExp = alphaExpNext s;
                s = s\<lparr>alphaExpNext := alphaExp + 1\<rparr>;
                learningRate = maxLearningRateMember s * lineSearchContractionRate st ^ alphaExp
            in if \<not> almost_ge learningRate (minLearningRate st)
               then (s, t\<lparr>place := TaskReturned\<rparr>)
               else (s, t\<lparr>place := AtSkipTest alphaExp learningRate\<rparr>))
       | AtSkipTest alphaExp learningRate \<Rightarrow>
           (if learningRate < learningRateStar s
            then (s, t\<lparr>place := TaskReturned\<rparr>)
            else (s, t\<lparr>place := AtWorker alphaExp learningRate\<rparr>))
       | AtWorker alphaExp learningRate \<Rightarrow>
           (let l = (locals t)\<lparr>l_controllersStock := initLScontrollersStock s\<rparr>;
                l = (case intr of
                       Some partial \<Rightarrow>
                         if killIntegration s
                         then lineSearchWorker_killed (numPartitions s) learningRate partial l
                         else lineSearchWorker ev st iter (numPartitions s) learningRate l
                     | None \<Rightarrow> lineSearchWorker ev st iter (numPartitions s) learningRate l)
            in (s\<lparr>rolloutCalls := rolloutCalls s + 1\<rparr>,
                \<lparr>place = AtLock alphaExp learningRate, locals = l\<rparr>))
       | AtLock alphaExp learningRate \<Rightarrow>
           (let l = locals t in
            if lineSearch_accepts s (l_totalCost l) learningRate
            then
              (let terminateLinesearchTasks = list_all (\<lambda>i. alphaProcessed s ! i) [0..<alphaExp];
                   s' = s\<lparr>nominalTotalCost := l_totalCost l,
                          learningRateStar := learningRate,
                          stateInputEqConstraintISE := l_stateInputEqConstraintISE l,
                          stateEqConstraintISE := l_stateEqConstraintISE l,
                          stateEqFinalConstraintISE := l_stateEqFinalConstraintISE l,
                          inequalityConstraintPenalty := l_inequalityConstraintPenalty l,
                          inequalityConstraintISE := l_inequalityConstraintISE l,
                          nominalControllersStock := l_controllersStock l,
                          nominalTrajectoriesStock := l_trajectoriesStock l,
                          alphaProcessed := (alphaProcessed s)[alphaExp := True]\<rparr>;
                   l' = l\<lparr>l_controllersStock := nominalControllersStock s,
                          l_trajectoriesStock := nominalTrajectoriesStock s\<rparr>
               in (s', \<lparr>place = (if terminateLinesearchTasks then AtKill else AtLoopHead),
                        locals = l'\<rparr>))
            else (s\<lparr>alphaProcessed := (alphaProcessed s)[alphaExp := True]\<rparr>,
                  t\<lparr>place := AtLoopHead\<rparr>))
       | AtKill \<Rightarrow> (s\<lparr>killIntegration := True\<rparr>, t\<lparr>place := TaskReturned\<rparr>)
       | TaskReturned \<Rightarrow> (s, t)))"

text \<open>
  An execution of the parallel section is a sequence of steps: \<open>Run k\<close> is a step of task
  \<open>k\<close>, \<open>Interrupt k partial\<close> is a step of task \<open>k\<close> whose integrators see the kill flag.
  The order of the steps of different tasks is arbitrary.
\<close>

datatype 'md ls_event = Run nat | Interrupt nat "'md trajectory list"

fun event_task :: "'md ls_event \<Rightarrow> nat" where
  "event_task (Run k) = k"
| "event_task (Interrupt k partial) = k"

fun event_intr :: "'md ls_event \<Rightarrow> 'md trajectory list option" where
  "event_intr (Run k) = None"
| "event_intr (Interrupt k partial) = Some partial"

definition lineSearch_event ::
  "'md evaluator \<Rightarrow> DDP_Settings \<Rightarrow> nat \<Rightarrow> 'md ddp \<times> 'md ls_task list \<Rightarrow> 'md ls_event
     \<Rightarrow> 'md ddp \<times> 'md ls_task list" where
  "lineSearch_event ev st iter cfg e =
     (case cfg of (s, ts) \<Rightarrow>
        if event_task e < length ts then
          (case lineSearchTask_step ev st iter (event_intr e) (s, ts ! event_task e) of
             (s', t') \<Rightarrow> (s', ts[event_task e := t']))
        else (s, ts))"

definition runParallel ::
  "'md evaluator \<Rightarrow> DDP_Settings \<Rightarrow> nat \<Rightarrow> 'md ls_event list \<Rightarrow> 'md ddp \<times> 'md ls_task list
     \<Rightarrow> 'md ddp \<times> 'md ls_task list" where
  "runParallel ev st iter events cfg = foldl (lineSearch_event ev st iter) cfg events"

text \<open>
  \<^verbatim>\<open>static_cast<size_t>(log(minLearningRate / maxLearningRate) / log(contractionRate) + 1)\<close>,
  line 756.
\<close>

definition maxNumOfLineSearches :: "DDP_Settings \<Rightarrow> nat" where
  "maxNumOfLineSearches st =
     nat \<lfloor>ln (minLearningRate st / maxLearningRate st) / ln (lineSearchContractionRate st) + 1\<rfloor>"

text \<open>The loop that clears the feed-forward increments, lines 745 to 747 and 770 to 772.\<close>

definition clearFeedforwardIncrements :: "'md ddp \<Rightarrow> 'md ddp" where
  "clearFeedforwardIncrements s =
     foldl (\<lambda>s i. s\<lparr>nominalControllersStock :=
                      (nominalControllersStock s)[i := (nominalControllersStock s ! i)\<lparr>deltaBiasArray := []\<rparr>]\<rparr>)
       s [0..<numPartitions s]"

text \<open>\<^verbatim>\<open>lineSearch\<close> up to its test of the maximum learning rate, lines 734 to 740.\<close>

definition lineSearch_baseline ::
  "'md evaluator \<Rightarrow> DDP_Settings \<Rightarrow> nat \<Rightarrow> 'md ddp \<Rightarrow> error + 'md ddp" where
  "lineSearch_baseline ev st iter s =
     (case baselineRollout ev st iter s of
        Inl e \<Rightarrow> Inl e
      | Inr s \<Rightarrow> Inr (s\<lparr>baselineTotalCost := nominalTotalCost s,
                        learningRateStar := 0,
                        initLScontrollersStock := nominalControllersStock s\<rparr>))"

text \<open>The members and the tasks when the parallel section starts, lines 756 to 764.\<close>

definition lineSearch_fork ::
  "DDP_Settings \<Rightarrow> 'md ls_locals \<Rightarrow> 'md ddp \<Rightarrow> 'md ddp \<times> 'md ls_task list" where
  "lineSearch_fork st l0 s =
     (s\<lparr>alphaExpNext := 0, alphaProcessed := replicate (maxNumOfLineSearches st) False\<rparr>,
      replicate (nThreads st)
        \<lparr>place = AtLoopHead,
         locals = l0\<lparr>l_controllersStock := replicate (numPartitions s) controller_clear,
                     l_trajectoriesStock := replicate (numPartitions s) trajectory_clear\<rparr>\<rparr>)"

text \<open>
  \<^verbatim>\<open>lineSearch\<close>, lines 733 to 778. \<open>eps\<close> is \<^verbatim>\<open>OCS2NumericTraits<scalar_t>::limitEpsilon()\<close>,
  declared outside the source files at hand. \<open>l0\<close> gives the values of the scalar local
  variables of a task, which the source does not initialise. \<open>events\<close> is the execution
  of the parallel section; \<^verbatim>\<open>runParallel\<close> returns when every task has returned, so the
  result is \<open>None\<close> for a sequence of steps that is not a whole execution.
\<close>

definition lineSearch ::
  "'md evaluator \<Rightarrow> DDP_Settings \<Rightarrow> real \<Rightarrow> nat \<Rightarrow> 'md ls_locals \<Rightarrow> 'md ls_event list \<Rightarrow> 'md ddp
     \<Rightarrow> (error + 'md ddp) option" where
  "lineSearch ev st eps iter l0 events s =
     (case lineSearch_baseline ev st iter s of
        Inl e \<Rightarrow> Some (Inl e)
      | Inr s \<Rightarrow>
          if maxLearningRate st < eps then Some (Inr (clearFeedforwardIncrements s))
          else
            (case runParallel ev st iter events (lineSearch_fork st l0 s) of
               (s, ts) \<Rightarrow>
                 if list_all (\<lambda>t. place t = TaskReturned) ts
                 then Some (Inr (clearFeedforwardIncrements (s\<lparr>killIntegration := False\<rparr>)))
                 else None))"

text \<open>The line search of an outer iteration, as \<^verbatim>\<open>runIteration\<close> calls it, lines 1698 to 1702.\<close>

definition runIteration_lineSearch ::
  "'md evaluator \<Rightarrow> DDP_Settings \<Rightarrow> real \<Rightarrow> nat \<Rightarrow> 'md ls_locals \<Rightarrow> 'md ls_event list \<Rightarrow> 'md ddp
     \<Rightarrow> (error + 'md ddp) option" where
  "runIteration_lineSearch ev st eps iter l0 events s =
     lineSearch ev st eps iter l0 events (s\<lparr>maxLearningRateMember := maxLearningRate st\<rparr>)"

section \<open>A small problem for running the model\<close>

text \<open>
  One partition, one input, no state. The rollout copies the feed-forward terms of the
  controller into the input trajectory and diverges when an input exceeds 100 in absolute
  value; the running cost of an input \<open>u\<close> is \<open>(u - 2)\<^sup>2\<close>; the state constraint has
  ISE 1 and the inequality penalty is 1.
\<close>

definition demoRollout ::
  "linear_controller_t list \<Rightarrow> (error \<times> unit trajectory list) + (fp \<times> unit trajectory list)" where
  "demoRollout cs =
     (if list_ex (\<lambda>c. list_ex (\<lambda>b. list_ex (\<lambda>u. \<bar>u\<bar> > 100) b) (biasArray c)) cs
      then Inl (RolloutUnstable, [])
      else Inr (FpFinite 1,
                map (\<lambda>c. \<lparr>timeTrajectory = timeStamp c, postEventIndices = [],
                           stateTrajectory = map (\<lambda>t. []) (timeStamp c),
                           inputTrajectory = biasArray c,
                           modelDataTrajectory = map (\<lambda>t. ()) (timeStamp c)\<rparr>) cs))"

definition demoCost :: "unit trajectory list \<Rightarrow> real" where
  "demoCost traj = sum_list (map (\<lambda>u. (u - 2) ^ 2) (concat (concat (map inputTrajectory traj))))"

definition demoISE :: constraints_ise where
  "demoISE = \<lparr>ise_stateInputEq = 0, ise_stateEq = 1, ise_stateEqFinal = 0,
              ise_inequality = 0, penalty_inequality = 1\<rparr>"

definition demoEvaluator :: "unit evaluator" where
  "demoEvaluator = \<lparr>ev_rollout = demoRollout, ev_constraintsISE = (\<lambda>traj. Inr demoISE),
                    ev_cost = (\<lambda>traj. Inr (demoCost traj))\<rparr>"

definition demoSettings :: DDP_Settings where
  "demoSettings = \<lparr>nThreads = 2, maxNumIterations = 10, minRelCost = 0.001,
                   minAbsConstraint1ISE = 0.001, minRelConstraint1ISE = 0.001,
                   maxLearningRate = 1, minLearningRate = 1 / 4,
                   lineSearchContractionRate = 1 / 2,
                   stateConstraintPenaltyBase = 10, stateConstraintPenaltyCoeff = 1,
                   displayInfo = False\<rparr>"

definition demoController :: "real \<Rightarrow> real \<Rightarrow> linear_controller_t" where
  "demoController b db =
     \<lparr>timeStamp = [0], gainArray = [[]], biasArray = [[b]], deltaBiasArray = [[db]]\<rparr>"

definition demoTrajectory :: "real \<Rightarrow> unit trajectory" where
  "demoTrajectory u =
     \<lparr>timeTrajectory = [0], postEventIndices = [], stateTrajectory = [[]],
      inputTrajectory = [[u]], modelDataTrajectory = [()]\<rparr>"

definition demoMembers :: "linear_controller_t list \<Rightarrow> unit trajectory list \<Rightarrow> unit ddp" where
  "demoMembers cs traj =
     \<lparr>numPartitions = 1, partitioningTimes = [0, 1], initActivePartition = 0,
      finalActivePartition = 0, initTime = 0, finalTime = 1, initState = [],
      rewindCounter = 0, learningRateStar = 1, maxLearningRateMember = 1,
      baselineTotalCost = 0, nominalTotalCost = 0, stateInputEqConstraintISE = 0,
      stateEqConstraintISE = 0, stateEqFinalConstraintISE = 0,
      inequalityConstraintPenalty = 0, inequalityConstraintISE = 0,
      avgTimeStepFP = FpFinite 0, nominalControllersStock = cs, initLScontrollersStock = [],
      nominalTrajectoriesStock = traj, cachedTrajectoriesStock = [trajectory_clear],
      SmFinalStock = [[]], SvFinalStock = [[]], SveFinalStock = [[]], sFinalStock = [0],
      xFinalStock = [[]], iterationCost = [], iterationISE1 = [], iterationISE2 = [],
      alphaExpNext = 0, alphaProcessed = [], killIntegration = False, rolloutCalls = 0\<rparr>"

definition demoLocals :: "unit ls_locals" where
  "demoLocals =
     \<lparr>l_totalCost = 0, l_stateInputEqConstraintISE = 0, l_stateEqConstraintISE = 0,
      l_stateEqFinalConstraintISE = 0, l_inequalityConstraintPenalty = 0,
      l_inequalityConstraintISE = 0, l_controllersStock = [], l_trajectoriesStock = []\<rparr>"

section \<open>The convergence test as the spec states it\<close>

text \<open>
  The spec's predicate for an iteration: \<open>prev\<close> and \<open>cur\<close> are the members before and
  after the iteration, \<open>enteredEmpty\<close> says that the iteration was entered with a
  controller stock that had an empty controller.
\<close>

definition converged_spec :: "DDP_Settings \<Rightarrow> bool \<Rightarrow> 'md ddp \<Rightarrow> 'md ddp \<Rightarrow> bool" where
  "converged_spec st enteredEmpty prev cur =
     ((\<bar>nominalTotalCost cur - nominalTotalCost prev\<bar> \<le> minRelCost st
        \<or> (learningRateStar cur = 0 \<and> \<not> enteredEmpty))
      \<and> (stateInputEqConstraintISE cur \<le> minAbsConstraint1ISE st
        \<or> \<bar>stateInputEqConstraintISE cur - stateInputEqConstraintISE prev\<bar>
             \<le> minRelConstraint1ISE st))"

text \<open>An iteration for running the main loop: its merit is \<open>1 / k\<close>, its step is zero from the third on.\<close>

definition demoIteration :: "nat \<Rightarrow> unit ddp \<Rightarrow> error + unit ddp" where
  "demoIteration k m =
     Inr (m\<lparr>nominalTotalCost := 1 / real k, learningRateStar := (if k < 3 then 1 / 2 else 0)\<rparr>)"

definition demoEntry :: "unit loop_state" where
  "demoEntry = mainLoop_entry [demoController 0 4]
                 (demoMembers [demoController 0 4] [demoTrajectory 2])"

text \<open>A horizon \<open>[0, 2]\<close> in one partition, for running the rollout driver.\<close>

definition demoHorizon :: "unit ddp" where
  "demoHorizon = (demoMembers [] [])\<lparr>partitioningTimes := [0, 2], finalTime := 2,
                                     initState := [FpFinite 1]\<rparr>"

definition demoTimedController :: "real list \<Rightarrow> linear_controller_t" where
  "demoTimedController ts =
     \<lparr>timeStamp = ts, gainArray = map (\<lambda>t. []) ts, biasArray = map (\<lambda>t. [0]) ts,
      deltaBiasArray = map (\<lambda>t. [0]) ts\<rparr>"

text \<open>Three partitions on \<open>[0, 3]\<close>, the last one without controller.\<close>

definition demoThree :: "unit ddp" where
  "demoThree = (demoMembers [demoTimedController [0, 1], demoTimedController [1, 2], controller_clear] [])
     \<lparr>numPartitions := 3, partitioningTimes := [0, 1, 2, 3], finalActivePartition := 2,
      finalTime := 3,
      SmFinalStock := [[[1]], [[2]], [[3]]], SvFinalStock := [[FpFinite 1], [FpFinite 2], [FpFinite 3]],
      SveFinalStock := [[FpFinite 4], [FpFinite 5], [FpFinite 6]], sFinalStock := [7, 8, 9],
      xFinalStock := [[FpFinite 10], [FpFinite 11], [FpFinite 12]]\<rparr>"

text \<open>The three partitions with a nominal and a cached trajectory each.\<close>

definition demoThreeRolled :: "unit ddp" where
  "demoThreeRolled =
     demoThree\<lparr>nominalTrajectoriesStock := [demoTrajectory 1, demoTrajectory 2, demoTrajectory 3],
               cachedTrajectoriesStock := [demoTrajectory 4, demoTrajectory 5, demoTrajectory 6]\<rparr>"

section \<open>The rules of the rollout driver and of rewinding as the spec states them\<close>

text \<open>
  \<open>p\<close> is the last partition of the scan \<open>initActive \<dots> finalActive\<close> that stops at the
  first empty controller.
\<close>

definition lastAvailable :: "'md ddp \<Rightarrow> linear_controller_t list \<Rightarrow> nat \<Rightarrow> bool" where
  "lastAvailable s cs p =
     (initActivePartition s \<le> p \<and> p \<le> finalActivePartition s
      \<and> (\<forall>i. initActivePartition s \<le> i \<and> i \<le> p \<longrightarrow> \<not> controller_empty (cs ! i))
      \<and> (p < finalActivePartition s \<longrightarrow> controller_empty (cs ! (p + 1))))"

text \<open>\<open>e\<close> is the first of the event times, in their order, that is not before \<open>t\<close>.\<close>

definition firstEventFrom :: "real \<Rightarrow> real list \<Rightarrow> real \<Rightarrow> bool" where
  "firstEventFrom t eventTimes e =
     (\<exists>k<length eventTimes. e = eventTimes ! k \<and> e \<ge> t \<and> (\<forall>j<k. eventTimes ! j < t))"

text \<open>
  The first \<open>n\<close> partitions of \<open>s'\<close> are rewound from \<open>s\<close> by \<open>f\<close>, and the partitions
  that the loop has not yet overwritten are as in \<open>s\<close>.
\<close>

definition rewound :: "nat \<Rightarrow> nat \<Rightarrow> nat \<Rightarrow> 'md ddp \<Rightarrow> 'md ddp \<Rightarrow> bool" where
  "rewound stateDim f n s s' =
     (numPartitions s' = numPartitions s \<and> stocks_sized s'
      \<and> (\<forall>i<n. controller_and_seed s' i =
            (if i < numPartitions s - f then controller_and_seed s (f + i) else controller_and_seed_zero stateDim))
      \<and> (n \<le> numPartitions s - f \<longrightarrow>
            (\<forall>p. f + n \<le> p \<and> p < numPartitions s \<longrightarrow> controller_and_seed s' p = controller_and_seed s p)))"

section \<open>The line search as the spec states it, and its invariant\<close>

text \<open>
  \<open>s0\<close> is the state of the members when the parallel section starts. Candidate \<open>j\<close> has
  the learning rate \<open>\<alpha>\<^sub>j = \<alpha>\<^sub>m\<^sub>a\<^sub>x r\<^sup>j\<close>; its merit is the total cost that a worker
  computes for it from the controllers of \<open>s0\<close> when its rollout is not cancelled; it
  passes when it belongs to the candidate set (\<open>\<alpha>\<^sub>j\<close> is not below the minimum learning
  rate) and satisfies the descent condition against the baseline merit.
\<close>

definition candidateRate :: "DDP_Settings \<Rightarrow> 'md ddp \<Rightarrow> nat \<Rightarrow> real" where
  "candidateRate st s0 j = maxLearningRateMember s0 * lineSearchContractionRate st ^ j"

definition candidateMerit :: "'md evaluator \<Rightarrow> DDP_Settings \<Rightarrow> nat \<Rightarrow> 'md ddp \<Rightarrow> real \<Rightarrow> real" where
  "candidateMerit ev st iter s0 a =
     (case ev_rollout ev (incrementBiasStock (numPartitions s0) a (initLScontrollersStock s0)) of
        Inl err \<Rightarrow> scalar_max
      | Inr (avg, traj) \<Rightarrow>
          (case ev_constraintsISE ev traj of
             Inl e \<Rightarrow> scalar_max
           | Inr ise \<Rightarrow>
               (case ev_cost ev traj of
                  Inl e \<Rightarrow> scalar_max
                | Inr cost \<Rightarrow> merit_spec st iter cost ise)))"

text \<open>
  The rollout of the controllers \<open>cs\<close> throws, or the constraint evaluation or the cost
  evaluation of its result does.
\<close>

definition evaluation_throws :: "'md evaluator \<Rightarrow> linear_controller_t list \<Rightarrow> bool" where
  "evaluation_throws ev cs =
     (case ev_rollout ev cs of
        Inl err \<Rightarrow> True
      | Inr (avg, traj) \<Rightarrow>
          (case ev_constraintsISE ev traj of
             Inl e \<Rightarrow> True
           | Inr ise \<Rightarrow> (case ev_cost ev traj of Inl e \<Rightarrow> True | Inr cost \<Rightarrow> False)))"

definition descends :: "'md ddp \<Rightarrow> real \<Rightarrow> real \<Rightarrow> bool" where
  "descends s0 a M = (M < baselineTotalCost s0 * (1 - 0.001 * a))"

definition passes :: "'md evaluator \<Rightarrow> DDP_Settings \<Rightarrow> nat \<Rightarrow> 'md ddp \<Rightarrow> nat \<Rightarrow> bool" where
  "passes ev st iter s0 j =
     (minLearningRate st \<le> candidateRate st s0 j
      \<and> descends s0 (candidateRate st s0 j) (candidateMerit ev st iter s0 (candidateRate st s0 j)))"

text \<open>What the invariant needs of the settings and of the vector \<open>alphaProcessed_\<close>.\<close>

definition ls_params_ok :: "DDP_Settings \<Rightarrow> 'md ddp \<Rightarrow> bool" where
  "ls_params_ok st s0 =
     (0 < lineSearchContractionRate st \<and> lineSearchContractionRate st < 1
      \<and> 0 < maxLearningRateMember s0
      \<and> (\<forall>j. minLearningRate st \<le> candidateRate st s0 j \<longrightarrow> j < length (alphaProcessed s0)))"

definition processed :: "'md ddp \<Rightarrow> nat \<Rightarrow> bool" where
  "processed s j = (j < length (alphaProcessed s) \<and> alphaProcessed s ! j)"

fun held :: "ls_place \<Rightarrow> nat option" where
  "held (AtSkipTest j a) = Some j"
| "held (AtWorker j a) = Some j"
| "held (AtLock j a) = Some j"
| "held AtLoopHead = None"
| "held AtKill = None"
| "held TaskReturned = None"

text \<open>Candidate \<open>j\<close> needs no more work: it is processed, or outside the candidate set, or beaten.\<close>

definition disposed :: "DDP_Settings \<Rightarrow> 'md ddp \<Rightarrow> 'md ddp \<Rightarrow> nat \<Rightarrow> bool" where
  "disposed st s0 s j =
     (processed s j \<or> candidateRate st s0 j < minLearningRate st
      \<or> candidateRate st s0 j < learningRateStar s)"

definition ls_frame :: "'md ddp \<Rightarrow> 'md ddp \<Rightarrow> bool" where
  "ls_frame s0 s =
     (baselineTotalCost s = baselineTotalCost s0
      \<and> initLScontrollersStock s = initLScontrollersStock s0
      \<and> maxLearningRateMember s = maxLearningRateMember s0
      \<and> numPartitions s = numPartitions s0
      \<and> length (alphaProcessed s) = length (alphaProcessed s0)
      \<and> length (nominalControllersStock s) = length (initLScontrollersStock s0))"

text \<open>The committed step is zero with the baseline results, or a passing candidate with its merit.\<close>

definition ls_star :: "'md evaluator \<Rightarrow> DDP_Settings \<Rightarrow> nat \<Rightarrow> 'md ddp \<Rightarrow> 'md ddp \<Rightarrow> bool" where
  "ls_star ev st iter s0 s =
     ((learningRateStar s = 0
        \<and> nominalTotalCost s = nominalTotalCost s0
        \<and> nominalControllersStock s = nominalControllersStock s0
        \<and> nominalTrajectoriesStock s = nominalTrajectoriesStock s0)
      \<or> (0 < learningRateStar s
          \<and> (\<exists>j. learningRateStar s = candidateRate st s0 j \<and> passes ev st iter s0 j
                 \<and> nominalTotalCost s = candidateMerit ev st iter s0 (candidateRate st s0 j))))"

definition claim_ok :: "DDP_Settings \<Rightarrow> 'md ddp \<Rightarrow> 'md ddp \<Rightarrow> nat \<Rightarrow> real \<Rightarrow> bool" where
  "claim_ok st s0 s j a =
     (a = candidateRate st s0 j \<and> j < alphaExpNext s \<and> \<not> processed s j
      \<and> j < length (alphaProcessed s) \<and> minLearningRate st \<le> a)"

definition task_inv ::
  "'md evaluator \<Rightarrow> DDP_Settings \<Rightarrow> nat \<Rightarrow> 'md ddp \<Rightarrow> 'md ddp \<Rightarrow> 'md ls_task \<Rightarrow> bool" where
  "task_inv ev st iter s0 s t =
     (case place t of
        AtLoopHead \<Rightarrow> True
      | AtSkipTest j a \<Rightarrow> claim_ok st s0 s j a
      | AtWorker j a \<Rightarrow> claim_ok st s0 s j a
      | AtLock j a \<Rightarrow>
          claim_ok st s0 s j a
          \<and> (l_totalCost (locals t) = candidateMerit ev st iter s0 a \<or> a < learningRateStar s)
          \<and> length (l_controllersStock (locals t)) = length (initLScontrollersStock s0)
      | AtKill \<Rightarrow> (\<forall>j. disposed st s0 s j)
      | TaskReturned \<Rightarrow> (\<forall>j\<ge>alphaExpNext s. disposed st s0 s j))"

definition ls_inv ::
  "'md evaluator \<Rightarrow> DDP_Settings \<Rightarrow> nat \<Rightarrow> 'md ddp \<Rightarrow> 'md ddp \<times> 'md ls_task list \<Rightarrow> bool" where
  "ls_inv ev st iter s0 cfg =
     (case cfg of (s, ts) \<Rightarrow>
        ls_frame s0 s
        \<and> ls_star ev st iter s0 s
        \<and> (\<forall>k<length ts. task_inv ev st iter s0 s (ts ! k))
        \<and> (\<forall>k<length ts. \<forall>k'<length ts. \<forall>j.
              held (place (ts ! k)) = Some j \<and> held (place (ts ! k')) = Some j \<longrightarrow> k = k')
        \<and> (killIntegration s \<longrightarrow> (\<forall>j. disposed st s0 s j))
        \<and> (\<forall>j. processed s j \<and> passes ev st iter s0 j \<longrightarrow> candidateRate st s0 j \<le> learningRateStar s)
        \<and> (\<forall>j<alphaExpNext s. disposed st s0 s j \<or> (\<exists>k<length ts. held (place (ts ! k)) = Some j))
        \<and> (\<forall>j. processed s j \<longrightarrow> j < alphaExpNext s))"

text \<open>The settings under which the line search is used: a contraction rate strictly between
  0 and 1, a positive minimum learning rate not above the maximum one, and at least one task.\<close>

definition lineSearch_settings_ok :: "DDP_Settings \<Rightarrow> bool" where
  "lineSearch_settings_ok st =
     (0 < lineSearchContractionRate st \<and> lineSearchContractionRate st < 1
      \<and> 0 < minLearningRate st \<and> minLearningRate st \<le> maxLearningRate st
      \<and> 0 < nThreads st)"

text \<open>
  The sizes that the parallel section keeps: the nominal stock, the stock that initialises
  the workers and the local stock of a task that waits for the lock have one controller
  for each of the \<open>n\<close> partitions.
\<close>

definition ls_sized :: "nat \<Rightarrow> 'md ddp \<times> 'md ls_task list \<Rightarrow> bool" where
  "ls_sized n cfg =
     (case cfg of (s, ts) \<Rightarrow>
        numPartitions s = n
        \<and> length (nominalControllersStock s) = n
        \<and> length (initLScontrollersStock s) = n
        \<and> list_all (\<lambda>t. case place t of
                            AtLock j a \<Rightarrow> length (l_controllersStock (locals t)) = n
                          | _ \<Rightarrow> True) ts)"

section \<open>Progress of the tasks\<close>

text \<open>
  The number of steps that a task still takes is bounded by four for every candidate
  index below \<open>n\<close> that has not been handed out, plus the steps that separate its place
  from the head of the loop.
\<close>

fun place_rank :: "ls_place \<Rightarrow> nat" where
  "place_rank AtLoopHead = 1"
| "place_rank (AtSkipTest j a) = 4"
| "place_rank (AtWorker j a) = 3"
| "place_rank (AtLock j a) = 2"
| "place_rank AtKill = 1"
| "place_rank TaskReturned = 0"

definition task_potential :: "nat \<Rightarrow> 'md ddp \<Rightarrow> 'md ls_task \<Rightarrow> nat" where
  "task_potential n s t =
     (if place t = TaskReturned then 0
      else 4 * (n - min (alphaExpNext s) n) + place_rank (place t))"

text \<open>The number of steps of task \<open>k\<close> in an execution.\<close>

definition steps_of :: "nat \<Rightarrow> 'md ls_event list \<Rightarrow> nat" where
  "steps_of k events = length (filter (\<lambda>e. event_task e = k) events)"

text \<open>An execution that lets every task run until it has returned gives it this many steps.\<close>

definition ls_fair :: "DDP_Settings \<Rightarrow> 'md ls_event list \<Rightarrow> bool" where
  "ls_fair st events =
     list_all (\<lambda>k. 4 * maxNumOfLineSearches st + 1 \<le> steps_of k events) [0..<nThreads st]"

text \<open>Every candidate index whose learning rate is not below the minimum is below \<open>n\<close>.\<close>

definition ls_fits :: "DDP_Settings \<Rightarrow> nat \<Rightarrow> 'md ddp \<Rightarrow> bool" where
  "ls_fits st n s =
     (\<forall>j. minLearningRate st \<le> maxLearningRateMember s * lineSearchContractionRate st ^ j \<longrightarrow> j < n)"

section \<open>Runs of the line search on the small problem\<close>

text \<open>The value of \<^verbatim>\<open>OCS2NumericTraits<scalar_t>::limitEpsilon()\<close> in the runs.\<close>

definition demoEpsilon :: real where
  "demoEpsilon = 1 / 10 ^ 12"

text \<open>
  An execution of two tasks in which task 1 takes the first candidate and task 0 commits
  the second candidate before task 1 has evaluated the first.
\<close>

definition demoInterleaved :: "unit ls_event list" where
  "demoInterleaved =
     [Run 1, Run 0, Run 0, Run 0, Run 0, Run 1, Run 1, Run 1, Run 1, Run 0, Run 0]"

text \<open>
  An execution in which task 0 evaluates every candidate before task 1 starts; each task
  takes 13 steps, the last ones after it has returned.
\<close>

definition demoSequential :: "unit ls_event list" where
  "demoSequential = replicate 13 (Run 0) @ replicate 13 (Run 1)"

text \<open>
  A problem whose cost is the lowest finite scalar on every rollout, with a single
  candidate of learning rate 3000, whose rollout diverges.
\<close>

definition lowEvaluator :: "unit evaluator" where
  "lowEvaluator =
     \<lparr>ev_rollout = demoRollout,
      ev_constraintsISE = (\<lambda>traj. Inr \<lparr>ise_stateInputEq = 0, ise_stateEq = 0, ise_stateEqFinal = 0,
                                        ise_inequality = 0, penalty_inequality = 0\<rparr>),
      ev_cost = (\<lambda>traj. Inr (- scalar_max))\<rparr>"

text \<open>The small problem with a cost evaluation that throws when the cost exceeds 1000.\<close>

definition costlyEvaluator :: "unit evaluator" where
  "costlyEvaluator =
     demoEvaluator\<lparr>ev_cost := (\<lambda>traj. if demoCost traj > 1000 then Inl (Thrown ''cost'')
                                       else Inr (demoCost traj))\<rparr>"

definition lowSettings :: DDP_Settings where
  "lowSettings = demoSettings\<lparr>maxLearningRate := 3000, minLearningRate := 3000\<rparr>"

section \<open>Properties of the merit function\<close>

lemma calculateRolloutMerit_spec:
  "calculateRolloutMerit st iter cost (ise_stateInputEq ise) (ise_stateEq ise)
     (ise_stateEqFinal ise) (penalty_inequality ise) = merit_spec st iter cost ise"
  by (simp add: calculateRolloutMerit_def merit_spec_def Let_def)

text \<open>The baseline of a line search records the merit of its rollout, the penalty counted once.\<close>

lemma baselineRollout_merit:
  assumes "baselineRollout ev st iter s = Inr s'"
  shows "\<exists>avg traj ise cost. ev_rollout ev (nominalControllersStock s) = Inr (avg, traj)
           \<and> ev_constraintsISE ev traj = Inr ise
           \<and> ev_cost ev traj = Inr cost
           \<and> nominalTrajectoriesStock s' = traj
           \<and> nominalTotalCost s' = merit_spec st iter cost ise"
  using assms
  by (auto simp: baselineRollout_def Let_def calculateRolloutMerit_spec
      split: sum.splits prod.splits)

text \<open>So does a worker of the line search whose rollout and evaluation do not throw.\<close>

lemma lineSearchWorker_merit:
  assumes "ev_rollout ev (incrementBiasStock n a (l_controllersStock l)) = Inr (avg, traj)"
    and "ev_constraintsISE ev traj = Inr ise"
    and "ev_cost ev traj = Inr cost"
  shows "l_totalCost (lineSearchWorker ev st iter n a l) = merit_spec st iter cost ise"
  using assms by (simp add: lineSearchWorker_def Let_def calculateRolloutMerit_spec)

text \<open>\<^verbatim>\<open>runInit\<close> adds the inequality penalty to the cost and then once more in the merit.\<close>

lemma runInit_performanceIndex_merit:
  assumes "runInit_performanceIndex ev st iter s = Inr s'"
    and "displayInfo st \<or> maxNumIterations st > 1"
  shows "\<exists>ise cost. ev_constraintsISE ev (nominalTrajectoriesStock s) = Inr ise
           \<and> ev_cost ev (nominalTrajectoriesStock s) = Inr cost
           \<and> nominalTotalCost s' = merit_spec st iter cost ise + penalty_inequality ise"
  using assms
  by (auto simp: runInit_performanceIndex_def Let_def calculateRolloutMerit_def merit_spec_def
      split: sum.splits)

text \<open>
  Claim C3. Every merit value the optimizer records, also the one of iteration 0 that
  \<^verbatim>\<open>runInit\<close> produces, is \<open>cost + \<lambda>/2 \<sqdot> (ISE\<^sub>2 + ISE\<^sub>2\<^sub>f) + penalty\<close> with the penalty
  counted once. The code of \<^verbatim>\<open>runInit\<close> does otherwise: on the small problem, with cost 0,
  state-constraint ISE 1, penalty 1 and coefficient 1, it records \<open>5/2\<close> where the formula
  gives \<open>3/2\<close>.
\<close>

theorem runInit_counts_penalty_twice:
  "\<exists>s' cost. runInit_performanceIndex demoEvaluator demoSettings 0 (demoMembers [] [demoTrajectory 2])
            = Inr s'
     \<and> nominalTotalCost s' = 5 / 2
     \<and> ev_cost demoEvaluator [demoTrajectory 2] = Inr cost
     \<and> merit_spec demoSettings 0 cost demoISE = 3 / 2"
  by (simp add: runInit_performanceIndex_def demoEvaluator_def demoSettings_def demoMembers_def
      demoTrajectory_def demoCost_def demoISE_def calculateRolloutMerit_def merit_spec_def Let_def)

section \<open>Properties of the main loop\<close>

lemma foldl_or_controller_empty:
  "foldl (\<lambda>b c. b \<or> controller_empty c) a cs = (a \<or> (\<exists>c\<in>set cs. controller_empty c))"
  by (induction cs arbitrary: a) auto

lemma anyControllerEmpty_iff: "anyControllerEmpty cs = (\<exists>c\<in>set cs. controller_empty c)"
  by (simp add: anyControllerEmpty_def foldl_or_controller_empty)

lemma mainLoop_pass_converged:
  assumes "mainLoop_pass runIteration st ls = Inr ls'"
  shows "iteration ls' = iteration ls + 1"
    and "\<not> isInitInternalControllerEmpty ls'"
    and "isOptimizationConverged ls' =
           converged_spec st (isInitInternalControllerEmpty ls) (members ls) (members ls')"
  using assms
  by (auto simp: mainLoop_pass_def Let_def converged_spec_def swapNominalTrajectoriesToCache_def
      split: sum.splits)

lemma mainLoop_passes_steps:
  assumes "mainLoop_passes runIteration st ls = (tr, r)" and "k < length tr"
  shows "iteration (tr ! k) = iteration ls + k + 1
       \<and> \<not> isInitInternalControllerEmpty (tr ! k)
       \<and> isOptimizationConverged (tr ! k) =
           converged_spec st (isInitInternalControllerEmpty ((ls # tr) ! k))
             (members ((ls # tr) ! k)) (members (tr ! k))
       \<and> mainLoop_continues st ((ls # tr) ! k)"
  using assms
proof (induction runIteration st ls arbitrary: tr r k rule: mainLoop_passes.induct)
  case (1 runIteration st ls)
  from "1.prems"(2) have ne: "tr \<noteq> []" by auto
  have guard: "mainLoop_continues st ls"
  proof (rule ccontr)
    assume "\<not> ?thesis"
    then have "mainLoop_passes runIteration st ls = ([], None)"
      by (subst mainLoop_passes.simps) simp
    with "1.prems"(1) ne show False by simp
  qed
  from guard "1.prems"(1) ne obtain ls' tr' where
    pass: "mainLoop_pass runIteration st ls = Inr ls'"
    and rest: "mainLoop_passes runIteration st ls' = (tr', r)"
    and tr: "tr = ls' # tr'"
    by (subst (asm) mainLoop_passes.simps) (auto split: sum.splits prod.splits)
  show ?case
  proof (cases k)
    case 0
    with pass tr guard show ?thesis
      using mainLoop_pass_converged[OF pass] by simp
  next
    case (Suc k')
    with "1.prems"(2) tr have k': "k' < length tr'" by simp
    from "1.IH"[OF guard pass rest k'] Suc tr mainLoop_pass_converged(1)[OF pass]
    show ?thesis by simp
  qed
qed

lemma mainLoop_passes_end:
  assumes "mainLoop_passes runIteration st ls = (tr, None)"
  shows "\<not> mainLoop_continues st (last (ls # tr))"
  using assms
proof (induction runIteration st ls arbitrary: tr rule: mainLoop_passes.induct)
  case (1 runIteration st ls)
  show ?case
  proof (cases "mainLoop_continues st ls")
    case False
    with "1.prems" have "tr = []" by (subst (asm) mainLoop_passes.simps) simp
    with False show ?thesis by simp
  next
    case True
    with "1.prems" obtain ls' tr' where
      pass: "mainLoop_pass runIteration st ls = Inr ls'"
      and rest: "mainLoop_passes runIteration st ls' = (tr', None)"
      and tr: "tr = ls' # tr'"
      by (subst (asm) mainLoop_passes.simps) (auto split: sum.splits prod.splits)
    from "1.IH"[OF True pass rest] tr show ?thesis by simp
  qed
qed

text \<open>The loop ends with the state of its last pass, or with the error that a pass throws.\<close>

lemma mainLoop_passes_result:
  "mainLoop runIteration st ls =
     (case mainLoop_passes runIteration st ls of
        (tr, None) \<Rightarrow> Inr (last (ls # tr))
      | (tr, Some e) \<Rightarrow> Inl e)"
proof (induction runIteration st ls rule: mainLoop.induct)
  case (1 runIteration st ls)
  show ?case
  proof (cases "mainLoop_continues st ls")
    case False
    then show ?thesis
      by (subst mainLoop.simps, subst mainLoop_passes.simps) simp
  next
    case True
    show ?thesis
    proof (cases "mainLoop_pass runIteration st ls")
      case (Inl e)
      with True show ?thesis
        by (subst mainLoop.simps, subst mainLoop_passes.simps) simp
    next
      case (Inr ls')
      from "1.IH"[OF True Inr] True Inr show ?thesis
        by (subst mainLoop.simps, subst mainLoop_passes.simps)
           (auto split: prod.splits option.splits)
    qed
  qed
qed

text \<open>
  Claim C4. Pass \<open>k\<close> of the main loop (counted from 0) is iteration \<open>k + 1\<close>. At its end
  the loop declares convergence exactly when the spec's predicate holds between the
  members before and after the iteration: the merit changed by at most \<open>minRelCost\<close>, or
  the step is zero and the iteration was not entered with an empty controller (which can
  only be in the first iteration, when the stock given to the solver had an empty
  controller); and the type-1 constraint ISE is at most \<open>minAbsConstraint1ISE\<close> or changed
  by at most \<open>minRelConstraint1ISE\<close>. The loop goes on after a pass that did not converge
  while \<open>iteration + 1 < maxNumIterations\<close>, and a loop that ends without an error ends
  converged or at that bound.
\<close>

theorem mainLoop_declares_convergence:
  assumes "mainLoop_passes runIteration st (mainLoop_entry initialStock m0) = (tr, r)"
    and "k < length tr"
  shows "iteration (tr ! k) = k + 1
       \<and> isOptimizationConverged (tr ! k) =
           converged_spec st (k = 0 \<and> (\<exists>c\<in>set initialStock. controller_empty c))
             (members ((mainLoop_entry initialStock m0 # tr) ! k)) (members (tr ! k))
       \<and> (k + 1 < length tr \<longrightarrow>
             \<not> isOptimizationConverged (tr ! k) \<and> k + 2 < maxNumIterations st)
       \<and> (k + 1 = length tr \<and> r = None \<longrightarrow>
             isOptimizationConverged (tr ! k) \<or> maxNumIterations st \<le> k + 2)"
proof -
  let ?e = "mainLoop_entry initialStock m0"
  note st = mainLoop_passes_steps[OF assms]
  have flag: "isInitInternalControllerEmpty ((?e # tr) ! k)
                = (k = 0 \<and> (\<exists>c\<in>set initialStock. controller_empty c))"
  proof (cases k)
    case 0
    then show ?thesis by (simp add: mainLoop_entry_def anyControllerEmpty_iff)
  next
    case (Suc k')
    with assms(2) have "k' < length tr" by simp
    from mainLoop_passes_steps[OF assms(1) this] Suc show ?thesis by simp
  qed
  have it: "iteration (tr ! k) = k + 1"
    using st by (simp add: mainLoop_entry_def)
  have next_pass: "k + 1 < length tr \<longrightarrow>
      \<not> isOptimizationConverged (tr ! k) \<and> k + 2 < maxNumIterations st"
  proof
    assume lt: "k + 1 < length tr"
    from mainLoop_passes_steps[OF assms(1) lt] it
    show "\<not> isOptimizationConverged (tr ! k) \<and> k + 2 < maxNumIterations st"
      by (simp add: mainLoop_continues_def)
  qed
  have last_pass: "k + 1 = length tr \<and> r = None \<longrightarrow>
      isOptimizationConverged (tr ! k) \<or> maxNumIterations st \<le> k + 2"
  proof
    assume a: "k + 1 = length tr \<and> r = None"
    then have l: "last (?e # tr) = tr ! k"
      using assms(2) by (cases tr) (auto simp: last_conv_nth)
    from a assms(1) have "mainLoop_passes runIteration st ?e = (tr, None)" by simp
    from mainLoop_passes_end[OF this] l it
    show "isOptimizationConverged (tr ! k) \<or> maxNumIterations st \<le> k + 2"
      by (auto simp: mainLoop_continues_def)
  qed
  from st flag it next_pass last_pass show ?thesis by simp
qed

lemma demo_passes:
  "snd (mainLoop_passes demoIteration demoSettings demoEntry) = None"
  "length (fst (mainLoop_passes demoIteration demoSettings demoEntry)) = 3"
  "isOptimizationConverged (fst (mainLoop_passes demoIteration demoSettings demoEntry) ! 2)"
  unfolding demoEntry_def mainLoop_entry_def
  by (subst mainLoop_passes.simps,
      simp add: mainLoop_continues_def demoSettings_def mainLoop_pass_def Let_def
        demoIteration_def swapNominalTrajectoriesToCache_def demoMembers_def
        split: prod.splits)+

theorem mainLoop_declares_convergence_witness:
  "snd (mainLoop_passes demoIteration demoSettings demoEntry) = None
   \<and> length (fst (mainLoop_passes demoIteration demoSettings demoEntry)) = 3
   \<and> iteration (fst (mainLoop_passes demoIteration demoSettings demoEntry) ! 2) = 3
   \<and> converged_spec demoSettings False
        (members (fst (mainLoop_passes demoIteration demoSettings demoEntry) ! 1))
        (members (fst (mainLoop_passes demoIteration demoSettings demoEntry) ! 2))"
proof -
  let ?p = "mainLoop_passes demoIteration demoSettings demoEntry"
  have run: "mainLoop_passes demoIteration demoSettings
               (mainLoop_entry [demoController 0 4]
                  (demoMembers [demoController 0 4] [demoTrajectory 2])) = (fst ?p, snd ?p)"
    by (simp add: demoEntry_def)
  have k: "2 < length (fst ?p)" by (simp add: demo_passes)
  from mainLoop_declares_convergence[OF run k] demo_passes
  show ?thesis by (simp add: demoEntry_def)
qed

section \<open>Properties of the input validation\<close>









section \<open>Properties of rewinding\<close>

lemma swap_entries_nth:
  "i < length xs \<Longrightarrow> j < length xs \<Longrightarrow>
   swap_entries i j xs ! p = (if p = j then xs ! i else if p = i then xs ! j else xs ! p)"
  by (auto simp: swap_entries_def nth_list_update)

lemma length_swap_entries [simp]: "length (swap_entries i j xs) = length xs"
  by (simp add: swap_entries_def)

lemma rewind_partition_frame:
  "numPartitions (rewind_partition d f pl s i) = numPartitions s"
  "stocks_sized s \<Longrightarrow> stocks_sized (rewind_partition d f pl s i)"
  by (auto simp: rewind_partition_def stocks_sized_def)

lemma rewound_step:
  assumes "0 < f" "f \<le> numPartitions s" "n < numPartitions s" "rewound d f n s s'"
  shows "rewound d f (Suc n) s (rewind_partition d f (numPartitions s - f) s' n)"
proof (cases "n < numPartitions s - f")
  case True
  with assms show ?thesis
    unfolding rewound_def
    apply (intro conjI)
       apply (simp add: rewind_partition_frame)
      apply (simp add: rewind_partition_frame)
     apply (auto simp: less_Suc_eq rewind_partition_def controller_and_seed_def stocks_sized_def swap_entries_nth)[1]
    apply (auto simp: rewind_partition_def controller_and_seed_def stocks_sized_def swap_entries_nth)[1]
    done
next
  case False
  with assms show ?thesis
    unfolding rewound_def
    apply (intro conjI)
       apply (simp add: rewind_partition_frame)
      apply (simp add: rewind_partition_frame)
     apply (auto simp: less_Suc_eq rewind_partition_def controller_and_seed_def controller_and_seed_zero_def stocks_sized_def)[1]
    apply simp
    done
qed

lemma rewound_loop:
  assumes "0 < f" "f \<le> numPartitions s" "stocks_sized s" "n \<le> numPartitions s"
  shows "rewound d f n s (foldl (rewind_partition d f (numPartitions s - f)) s [0..<n])"
  using assms(4)
proof (induction n)
  case 0
  with assms show ?case by (simp add: rewound_def)
next
  case (Suc n)
  then have "rewound d f n s (foldl (rewind_partition d f (numPartitions s - f)) s [0..<n])" by simp
  from rewound_step[OF assms(1,2) _ this] Suc.prems show ?case by simp
qed

lemma rewind_partition_trajectories:
  "nominalTrajectoriesStock (rewind_partition d f pl s i) = nominalTrajectoriesStock s"
  "cachedTrajectoriesStock (rewind_partition d f pl s i) = cachedTrajectoriesStock s"
  by (simp_all add: rewind_partition_def)

lemma rewind_loop_trajectories:
  "nominalTrajectoriesStock (foldl (rewind_partition d f pl) s is) = nominalTrajectoriesStock s
   \<and> cachedTrajectoriesStock (foldl (rewind_partition d f pl) s is) = cachedTrajectoriesStock s"
  by (induction "is" arbitrary: s) (simp_all add: rewind_partition_trajectories)

lemma rewindOptimizer_trajectories:
  "nominalTrajectoriesStock (snd (rewindOptimizer d f s)) = nominalTrajectoriesStock s"
  "cachedTrajectoriesStock (snd (rewindOptimizer d f s)) = cachedTrajectoriesStock s"
  by (simp_all add: rewindOptimizer_def Let_def rewind_loop_trajectories)

text \<open>
  Claim C8, as the code has it. For \<open>0 < firstIndex \<le> K\<close>, after
  \<^verbatim>\<open>rewindOptimizer(firstIndex)\<close> the controller and the terminal values
  \<open>(Sm, Sv, Sve, s, xFinal)\<close> of partition \<open>i\<close> are those that partition \<open>i + firstIndex\<close>
  held before, for every \<open>i < K - firstIndex\<close>, and those of every partition from
  \<open>K - firstIndex\<close> on are cleared and zeroed. The nominal and the cached trajectories of
  every partition stay where they were: they are neither shifted nor cleared.
\<close>

theorem rewindOptimizer_shifts_and_zeroes:
  assumes "0 < firstIndex" "firstIndex \<le> numPartitions s" "stocks_sized s"
  shows "fst (rewindOptimizer stateDim firstIndex s) = None
       \<and> (\<forall>i. i < numPartitions s - firstIndex \<longrightarrow>
             controller_and_seed (snd (rewindOptimizer stateDim firstIndex s)) i
               = controller_and_seed s (i + firstIndex))
       \<and> (\<forall>i. numPartitions s - firstIndex \<le> i \<and> i < numPartitions s \<longrightarrow>
             controller_and_seed (snd (rewindOptimizer stateDim firstIndex s)) i
               = controller_and_seed_zero stateDim)
       \<and> nominalTrajectoriesStock (snd (rewindOptimizer stateDim firstIndex s))
           = nominalTrajectoriesStock s
       \<and> cachedTrajectoriesStock (snd (rewindOptimizer stateDim firstIndex s))
           = cachedTrajectoriesStock s"
proof -
  let ?s1 = "s\<lparr>rewindCounter := (rewindCounter s + firstIndex) mod 2 ^ 64\<rparr>"
  let ?s' = "foldl (rewind_partition stateDim firstIndex (numPartitions s - firstIndex)) ?s1
               [0..<numPartitions s]"
  have res: "rewindOptimizer stateDim firstIndex s = (None, ?s')"
    using assms(1,2) by (simp add: rewindOptimizer_def Let_def)
  have s1: "numPartitions ?s1 = numPartitions s" "stocks_sized ?s1"
    "\<And>i. controller_and_seed ?s1 i = controller_and_seed s i"
    using assms(3) by (simp_all add: stocks_sized_def controller_and_seed_def)
  from rewound_loop[of firstIndex ?s1 "numPartitions ?s1" stateDim] assms(1,2) s1(2)
  have "rewound stateDim firstIndex (numPartitions s) ?s1 ?s'" by simp
  then have "\<forall>i<numPartitions s. controller_and_seed ?s' i =
      (if i < numPartitions s - firstIndex then controller_and_seed s (firstIndex + i)
       else controller_and_seed_zero stateDim)"
    using s1(3) by (simp add: rewound_def)
  with res have "fst (rewindOptimizer stateDim firstIndex s) = None
       \<and> (\<forall>i. i < numPartitions s - firstIndex \<longrightarrow>
             controller_and_seed (snd (rewindOptimizer stateDim firstIndex s)) i
               = controller_and_seed s (i + firstIndex))
       \<and> (\<forall>i. numPartitions s - firstIndex \<le> i \<and> i < numPartitions s \<longrightarrow>
             controller_and_seed (snd (rewindOptimizer stateDim firstIndex s)) i
               = controller_and_seed_zero stateDim)"
    by (simp add: add.commute)
  then show ?thesis by (simp add: rewindOptimizer_trajectories)
qed

lemma demoThree_sized: "numPartitions demoThree = 3" "stocks_sized demoThree"
  by (simp_all add: demoThree_def demoMembers_def stocks_sized_def)

lemma demoThreeRolled_sized: "numPartitions demoThreeRolled = 3" "stocks_sized demoThreeRolled"
  by (simp_all add: demoThreeRolled_def demoThree_def demoMembers_def stocks_sized_def)

text \<open>Rewind by 1 on a 3-partition optimizer, the spec's scenario 5.\<close>

theorem rewindOptimizer_shifts_and_zeroes_witness:
  "stocks_sized demoThreeRolled
   \<and> controller_and_seed (snd (rewindOptimizer 1 1 demoThreeRolled)) 0
       = controller_and_seed demoThreeRolled 1
   \<and> controller_and_seed (snd (rewindOptimizer 1 1 demoThreeRolled)) 1
       = controller_and_seed demoThreeRolled 2
   \<and> controller_and_seed (snd (rewindOptimizer 1 1 demoThreeRolled)) 2 = controller_and_seed_zero 1
   \<and> nominalTrajectoriesStock (snd (rewindOptimizer 1 1 demoThreeRolled))
       = [demoTrajectory 1, demoTrajectory 2, demoTrajectory 3]
   \<and> cachedTrajectoriesStock (snd (rewindOptimizer 1 1 demoThreeRolled))
       = [demoTrajectory 4, demoTrajectory 5, demoTrajectory 6]"
proof -
  have h: "(0::nat) < 1" "1 \<le> numPartitions demoThreeRolled" "stocks_sized demoThreeRolled"
    by (simp_all add: demoThreeRolled_sized)
  note res = rewindOptimizer_shifts_and_zeroes[OF h, of 1]
  from res demoThreeRolled_sized
  have a: "\<forall>i<2. controller_and_seed (snd (rewindOptimizer 1 1 demoThreeRolled)) i
              = controller_and_seed demoThreeRolled (i + 1)"
    and b: "\<forall>i. 2 \<le> i \<and> i < 3 \<longrightarrow>
              controller_and_seed (snd (rewindOptimizer 1 1 demoThreeRolled)) i
                = controller_and_seed_zero 1"
    by simp_all
  from a have "controller_and_seed (snd (rewindOptimizer 1 1 demoThreeRolled)) 0
                 = controller_and_seed demoThreeRolled 1"
    "controller_and_seed (snd (rewindOptimizer 1 1 demoThreeRolled)) 1
       = controller_and_seed demoThreeRolled 2"
    by (auto simp: numeral_2_eq_2)
  moreover from b have "controller_and_seed (snd (rewindOptimizer 1 1 demoThreeRolled)) 2
                          = controller_and_seed_zero 1"
    by simp
  moreover from res have "nominalTrajectoriesStock (snd (rewindOptimizer 1 1 demoThreeRolled))
       = [demoTrajectory 1, demoTrajectory 2, demoTrajectory 3]"
    "cachedTrajectoriesStock (snd (rewindOptimizer 1 1 demoThreeRolled))
       = [demoTrajectory 4, demoTrajectory 5, demoTrajectory 6]"
    by (simp_all add: demoThreeRolled_def)
  ultimately show ?thesis using h(3) by simp
qed

text \<open>
  The claim as the spec states it fails for the trajectories, which the spec lists among
  the data of a partition: after a rewind by 1 on three partitions, partition 0 still has
  its own nominal trajectory, not the one of partition 1, and the nominal trajectory of
  partition 2 is not cleared.
\<close>

theorem rewindOptimizer_leaves_trajectories:
  "(0 :: nat) < 1 \<and> 1 \<le> numPartitions demoThreeRolled \<and> stocks_sized demoThreeRolled
   \<and> fst (rewindOptimizer 1 1 demoThreeRolled) = None
   \<and> partition_data (snd (rewindOptimizer 1 1 demoThreeRolled)) 0 \<noteq> partition_data demoThreeRolled 1
   \<and> nominalTrajectoriesStock (snd (rewindOptimizer 1 1 demoThreeRolled)) ! 0 = demoTrajectory 1
   \<and> nominalTrajectoriesStock demoThreeRolled ! 1 = demoTrajectory 2
   \<and> nominalTrajectoriesStock (snd (rewindOptimizer 1 1 demoThreeRolled)) ! 2 = demoTrajectory 3
   \<and> demoTrajectory 3 \<noteq> (trajectory_clear :: unit trajectory)"
proof -
  have "fst (rewindOptimizer 1 1 demoThreeRolled) = None"
    by (simp add: rewindOptimizer_def Let_def demoThreeRolled_sized)
  moreover have "nominalTrajectoriesStock demoThreeRolled
      = [demoTrajectory 1, demoTrajectory 2, demoTrajectory 3]"
    by (simp add: demoThreeRolled_def)
  moreover have "demoTrajectory 1 \<noteq> (demoTrajectory 2 :: unit trajectory)"
    "demoTrajectory 3 \<noteq> (trajectory_clear :: unit trajectory)"
    by (simp_all add: demoTrajectory_def trajectory_clear_def)
  ultimately show ?thesis
    by (simp add: partition_data_def rewindOptimizer_trajectories demoThreeRolled_sized)
qed

section \<open>Properties of the rollout driver\<close>

lemma controllerScan_stops:
  "a \<ge> b \<or> controller_empty (cs ! a) \<Longrightarrow> controllerScan cs [a..<b] acc = acc"
  by (cases "a < b") (auto simp: upt_conv_Cons)

lemma controllerScan_upt:
  assumes "a < b" "\<not> controller_empty (cs ! a)"
  shows "\<exists>p. controllerScan cs [a..<b] acc = (last (timeStamp (cs ! p)), p)
           \<and> a \<le> p \<and> p < b
           \<and> (\<forall>i. a \<le> i \<and> i \<le> p \<longrightarrow> \<not> controller_empty (cs ! i))
           \<and> (p + 1 < b \<longrightarrow> controller_empty (cs ! (p + 1)))"
  using assms
proof (induction "b - a" arbitrary: a acc)
  case 0
  then show ?case by simp
next
  case (Suc n)
  from Suc.prems have unfold: "controllerScan cs [a..<b] acc
      = controllerScan cs [Suc a..<b] (last (timeStamp (cs ! a)), a)"
    by (simp add: upt_conv_Cons)
  show ?case
  proof (cases "Suc a < b \<and> \<not> controller_empty (cs ! Suc a)")
    case False
    then have "controllerScan cs [Suc a..<b] (last (timeStamp (cs ! a)), a)
        = (last (timeStamp (cs ! a)), a)"
      by (intro controllerScan_stops) auto
    with unfold Suc.prems False show ?thesis
      by (intro exI[of _ a]) (auto simp: le_antisym)
  next
    case True
    from Suc.hyps(2) have "n = b - Suc a" by simp
    from Suc.hyps(1)[OF this, of "(last (timeStamp (cs ! a)), a)"] True
    obtain p where p: "controllerScan cs [Suc a..<b] (last (timeStamp (cs ! a)), a)
          = (last (timeStamp (cs ! p)), p)"
      "Suc a \<le> p" "p < b" "\<forall>i. Suc a \<le> i \<and> i \<le> p \<longrightarrow> \<not> controller_empty (cs ! i)"
      "p + 1 < b \<longrightarrow> controller_empty (cs ! (p + 1))"
      by auto
    have "\<forall>i. a \<le> i \<and> i \<le> p \<longrightarrow> \<not> controller_empty (cs ! i)"
    proof (intro allI impI)
      fix i assume "a \<le> i \<and> i \<le> p"
      then show "\<not> controller_empty (cs ! i)"
        using p(4) Suc.prems(2) by (cases "i = a") auto
    qed
    with unfold p show ?thesis
      by (intro exI[of _ p]) auto
  qed
qed

text \<open>
  Claim C2. In \<^verbatim>\<open>rolloutTrajectory\<close>, with a range of active partitions that is not
  empty: if the controller of partition \<open>initActive\<close> is empty the controller is never
  used (\<open>useControllerTill = initTime\<close>). Otherwise \<open>controllerAvailableTill\<close> is the last
  time stamp of the last controller of the scan that stops at the first empty one; the
  controller is used till \<open>finalTime\<close> when every event time is before
  \<open>controllerAvailableTill\<close>, and else till \<open>min e finalTime\<close> for the first event time
  \<open>e\<close> that is not before it.
\<close>

theorem useControllerTill_rule:
  assumes "initActivePartition s \<le> finalActivePartition s"
  shows "(controller_empty (cs ! initActivePartition s) \<longrightarrow>
            useControllerTill s eventTimes cs = initTime s)
       \<and> (\<not> controller_empty (cs ! initActivePartition s) \<longrightarrow>
            lastAvailable s cs (partitionOfLastController s cs)
            \<and> controllerAvailableTill s cs = last (timeStamp (cs ! partitionOfLastController s cs))
            \<and> ((\<forall>e\<in>set eventTimes. e < controllerAvailableTill s cs) \<longrightarrow>
                  useControllerTill s eventTimes cs = finalTime s)
            \<and> ((\<exists>e\<in>set eventTimes. e \<ge> controllerAvailableTill s cs) \<longrightarrow>
                  (\<exists>e. firstEventFrom (controllerAvailableTill s cs) eventTimes e
                       \<and> useControllerTill s eventTimes cs = min e (finalTime s))))"
proof (cases "controller_empty (cs ! initActivePartition s)")
  case True
  then show ?thesis by (simp add: useControllerTill_def)
next
  case False
  let ?t = "controllerAvailableTill s cs"
  from assms have "initActivePartition s < finalActivePartition s + 1" by simp
  from controllerScan_upt[OF this False, of "(initTime s, initActivePartition s)"]
  have scan: "lastAvailable s cs (partitionOfLastController s cs)"
    "?t = last (timeStamp (cs ! partitionOfLastController s cs))"
    by (auto simp: lastAvailable_def partitionOfLastController_def controllerAvailableTill_def)
  have none: "(\<forall>e\<in>set eventTimes. e < ?t) \<longrightarrow> useControllerTill s eventTimes cs = finalTime s"
  proof
    assume "\<forall>e\<in>set eventTimes. e < ?t"
    then have "find (\<lambda>eventTime. eventTime \<ge> ?t) eventTimes = None"
      by (auto simp: find_None_iff)
    with False show "useControllerTill s eventTimes cs = finalTime s"
      by (simp add: useControllerTill_def)
  qed
  have some: "(\<exists>e\<in>set eventTimes. e \<ge> ?t) \<longrightarrow>
      (\<exists>e. firstEventFrom ?t eventTimes e \<and> useControllerTill s eventTimes cs = min e (finalTime s))"
  proof
    assume "\<exists>e\<in>set eventTimes. e \<ge> ?t"
    then obtain e where e: "find (\<lambda>eventTime. eventTime \<ge> ?t) eventTimes = Some e"
      by (cases "find (\<lambda>eventTime. eventTime \<ge> ?t) eventTimes") (auto simp: find_None_iff)
    then have "firstEventFrom ?t eventTimes e"
      by (auto simp: find_Some_iff firstEventFrom_def not_le)
    with e False show "\<exists>e. firstEventFrom ?t eventTimes e
        \<and> useControllerTill s eventTimes cs = min e (finalTime s)"
      by (auto simp: useControllerTill_def)
  qed
  from False scan none some show ?thesis by simp
qed

lemma demoThree_controllers:
  "useControllerTill demoThree [1 / 2, 5 / 2] (nominalControllersStock demoThree) = 5 / 2"
  "controllerAvailableTill demoThree (nominalControllersStock demoThree) = 2"
  "partitionOfLastController demoThree (nominalControllersStock demoThree) = 1"
  "initActivePartition demoThree \<le> finalActivePartition demoThree"
  "\<not> controller_empty (nominalControllersStock demoThree ! initActivePartition demoThree)"
  by code_simp+

theorem useControllerTill_rule_witness:
  "initActivePartition demoThree \<le> finalActivePartition demoThree
   \<and> lastAvailable demoThree (nominalControllersStock demoThree) 1
   \<and> firstEventFrom 2 [1 / 2, 5 / 2] (5 / 2)
   \<and> useControllerTill demoThree [1 / 2, 5 / 2] (nominalControllersStock demoThree)
        = min (5 / 2) (finalTime demoThree)"
proof -
  have fe: "firstEventFrom 2 [1 / 2, 5 / 2] (5 / 2)"
    unfolding firstEventFrom_def by (intro exI[of _ 1]) simp
  have "finalTime demoThree = 3" by (simp add: demoThree_def)
  with useControllerTill_rule[OF demoThree_controllers(4), of "nominalControllersStock demoThree"
      "[1 / 2, 5 / 2]"] demoThree_controllers fe
  show ?thesis by simp
qed

lemma events_duplicated_iff:
  "events_duplicated tr =
     (\<forall>j\<in>set (postEventIndices tr). 0 < j \<and> j < length (timeTrajectory tr)
        \<and> timeTrajectory tr ! (j - 1) = timeTrajectory tr ! j)"
  by (simp add: events_duplicated_def list_all_iff)

lemma events_duplicated_clear [simp]: "events_duplicated trajectory_clear"
  by (simp add: events_duplicated_def trajectory_clear_def)

lemma appendTail_duplicated:
  assumes "events_duplicated tr" "length (stateTrajectory tr) = length (timeTrajectory tr)"
    and "events_duplicated tail"
  shows "events_duplicated (appendTail tr tail)"
  unfolding events_duplicated_iff
proof
  fix j assume "j \<in> set (postEventIndices (appendTail tr tail))"
  then consider (old) "j \<in> set (postEventIndices tr)"
    | (new) k where "k \<in> set (postEventIndices tail)" "j = k + length (timeTrajectory tr)"
    using assms(2) by (auto simp: appendTail_def)
  then show "0 < j \<and> j < length (timeTrajectory (appendTail tr tail))
      \<and> timeTrajectory (appendTail tr tail) ! (j - 1) = timeTrajectory (appendTail tr tail) ! j"
  proof cases
    case old
    with assms(1) have j: "0 < j" "j < length (timeTrajectory tr)"
      "timeTrajectory tr ! (j - 1) = timeTrajectory tr ! j"
      by (auto simp: events_duplicated_iff)
    then have "j - 1 < length (timeTrajectory tr)" by arith
    with j show ?thesis by (simp add: appendTail_def nth_append)
  next
    case new
    with assms(3) have k: "0 < k" "k < length (timeTrajectory tail)"
      "timeTrajectory tail ! (k - 1) = timeTrajectory tail ! k"
      by (auto simp: events_duplicated_iff)
    then have "\<not> k + length (timeTrajectory tr) - 1 < length (timeTrajectory tr)"
      "k + length (timeTrajectory tr) - 1 - length (timeTrajectory tr) = k - 1"
      by arith+
    with k new(2) show ?thesis by (simp add: appendTail_def nth_append)
  qed
qed

lemma appendTail_popped_duplicated:
  assumes seg: "segment_ok t0 tr"
    and tail: "segment_ok (last (timeTrajectory tr)) tail"
  shows "events_duplicated (appendTail (pop_back_sample tr) tail)"
  unfolding events_duplicated_iff
proof
  let ?ts = "timeTrajectory tr" and ?us = "timeTrajectory tail"
  let ?n = "length ?ts"
  from seg have ne: "?ts \<noteq> []" and len: "length (stateTrajectory tr) = ?n"
    and dup: "events_duplicated tr"
    by (auto simp: segment_ok_def)
  from tail have une: "?us \<noteq> []" and hd: "hd ?us = last ?ts" and udup: "events_duplicated tail"
    by (auto simp: segment_ok_def)
  have times: "timeTrajectory (appendTail (pop_back_sample tr) tail) = butlast ?ts @ ?us"
    by (simp add: appendTail_def pop_back_sample_def)
  fix j assume "j \<in> set (postEventIndices (appendTail (pop_back_sample tr) tail))"
  then consider (old) "j \<in> set (postEventIndices tr)"
    | (new) k where "k \<in> set (postEventIndices tail)" "j = k + (?n - 1)"
    using len by (auto simp: appendTail_def pop_back_sample_def)
  then show "0 < j \<and> j < length (timeTrajectory (appendTail (pop_back_sample tr) tail))
      \<and> timeTrajectory (appendTail (pop_back_sample tr) tail) ! (j - 1)
          = timeTrajectory (appendTail (pop_back_sample tr) tail) ! j"
  proof cases
    case old
    with dup have j: "0 < j" "j < ?n" "?ts ! (j - 1) = ?ts ! j"
      by (auto simp: events_duplicated_iff)
    show ?thesis
    proof (cases "j < ?n - 1")
      case True
      then have "j - 1 < ?n - 1" "j < length (butlast ?ts)" "j - 1 < length (butlast ?ts)"
        by simp_all
      with j True show ?thesis by (simp add: times nth_append nth_butlast)
    next
      case False
      with j have jn: "j = ?n - 1" by simp
      have "(butlast ?ts @ ?us) ! j = hd ?us"
        using jn une by (simp add: nth_append hd_conv_nth)
      also have "\<dots> = ?ts ! j" using hd ne jn by (simp add: last_conv_nth)
      finally have a: "(butlast ?ts @ ?us) ! j = ?ts ! j" .
      have "j - 1 < length (butlast ?ts)" using j jn by simp
      then have b: "(butlast ?ts @ ?us) ! (j - 1) = ?ts ! (j - 1)"
        by (simp add: nth_append nth_butlast)
      from une have lu: "0 < length ?us" by simp
      have "length (butlast ?ts @ ?us) = (?n - 1) + length ?us" by simp
      with lu jn have "j < length (butlast ?ts @ ?us)" by linarith
      with a b j show ?thesis by (simp only: times)
    qed
  next
    case new
    with udup have k: "0 < k" "k < length ?us" "?us ! (k - 1) = ?us ! k"
      by (auto simp: events_duplicated_iff)
    then have "\<not> k + (?n - 1) - 1 < ?n - 1" "k + (?n - 1) - 1 - (?n - 1) = k - 1"
      by arith+
    with k new(2) show ?thesis by (simp add: times nth_append)
  qed
qed

lemma finishWithOperatingPoints_duplicated:
  assumes "integrator_contract opRun"
    and "tr = trajectory_clear \<or> segment_ok t0 tr"
    and "finishWithOperatingPoints opRun eventTimes opFrom opTo x tr = Inr (x', tr')"
  shows "events_duplicated tr'"
proof -
  let ?past = "postEventIndices tr \<noteq> []
                 \<and> last (postEventIndices tr) = size_minus_one (length (timeTrajectory tr))"
  show ?thesis
  proof (cases ?past)
    case True
    with assms(2) have seg: "segment_ok t0 tr" by (auto simp: trajectory_clear_def)
    from True assms(3) obtain tail where
      run: "opRun (last (timeTrajectory tr)) x opTo None eventTimes = Inr (x', tail)"
      and tr': "tr' = appendTail (pop_back_sample tr) tail"
      by (auto simp: finishWithOperatingPoints_def Let_def split: sum.splits prod.splits)
    from assms(1) run have "segment_ok (last (timeTrajectory tr)) tail"
      by (auto simp: integrator_contract_def)
    from appendTail_popped_duplicated[OF seg this] tr' show ?thesis by simp
  next
    case False
    with assms(3) obtain tail where
      run: "opRun opFrom x opTo None eventTimes = Inr (x', tail)"
      and tr': "tr' = appendTail tr tail"
      by (auto simp: finishWithOperatingPoints_def Let_def split: sum.splits prod.splits)
    from assms(1) run have t: "events_duplicated tail"
      by (auto simp: integrator_contract_def segment_ok_def)
    from assms(2) have "events_duplicated tr \<and> length (stateTrajectory tr) = length (timeTrajectory tr)"
      by (auto simp: segment_ok_def trajectory_clear_def events_duplicated_def)
    with appendTail_duplicated[OF _ _ t] tr' show ?thesis by simp
  qed
qed

lemma list_all_update:
  "list_all P xs \<Longrightarrow> P y \<Longrightarrow> list_all P (xs[i := y])"
  using set_update_subset_insert[of xs i y] by (auto simp: list_all_iff)

lemma controllerRollout_duplicated:
  assumes dyn: "integrator_contract dynRun"
    and clear: "i < length stock \<longrightarrow> stock ! i = trajectory_clear"
    and inv: "list_all events_duplicated stock"
    and run: "controllerRollout dynRun eventTimes c (t0, tc) i (x, stock) = Inr (x1, stock1)"
  shows "list_all events_duplicated stock1 \<and> length stock1 = length stock
      \<and> (\<forall>j. j \<noteq> i \<longrightarrow> stock1 ! j = stock ! j)
      \<and> (i < length stock \<longrightarrow> stock1 ! i = trajectory_clear \<or> segment_ok t0 (stock1 ! i))"
proof (cases "t0 < tc")
  case False
  with run clear inv show ?thesis by (simp add: controllerRollout_def)
next
  case True
  with run obtain seg where seg: "dynRun t0 x tc (Some c) eventTimes = Inr (x1, seg)"
    and st: "stock1 = stock[i := seg]"
    by (auto simp: controllerRollout_def split: sum.splits prod.splits)
  from dyn seg have "segment_ok t0 seg" by (auto simp: integrator_contract_def)
  with st inv show ?thesis
    by (auto simp: segment_ok_def intro: list_all_update)
qed

lemma operatingPointsRollout_duplicated:
  assumes op: "integrator_contract opRun"
    and seg: "i < length stock1 \<longrightarrow> stock1 ! i = trajectory_clear \<or> segment_ok t0 (stock1 ! i)"
    and inv: "list_all events_duplicated stock1"
    and run: "operatingPointsRollout opRun eventTimes (tc, tf) i (x1, stock1) = Inr (x', stock')"
  shows "list_all events_duplicated stock' \<and> length stock' = length stock1
      \<and> (\<forall>j. j \<noteq> i \<longrightarrow> stock' ! j = stock1 ! j)"
proof (cases "tc < tf")
  case False
  with run inv show ?thesis by (simp add: operatingPointsRollout_def)
next
  case True
  with run obtain tr where
    fin: "finishWithOperatingPoints opRun eventTimes tc tf x1 (stock1 ! i) = Inr (x', tr)"
    and st: "stock' = stock1[i := tr]"
    by (auto simp: operatingPointsRollout_def split: sum.splits prod.splits)
  show ?thesis
  proof (cases "i < length stock1")
    case False
    then have "stock1[i := tr] = stock1" by (simp add: list_update_beyond)
    with st inv show ?thesis by simp
  next
    case True
    with seg have "stock1 ! i = trajectory_clear \<or> segment_ok t0 (stock1 ! i)" by simp
    from finishWithOperatingPoints_duplicated[OF op this fin] st inv
    show ?thesis by (auto intro: list_all_update)
  qed
qed

lemma rolloutPartition_duplicated:
  assumes dyn: "integrator_contract dynRun" and op: "integrator_contract opRun"
    and clear: "i < length stock \<longrightarrow> stock ! i = trajectory_clear"
    and inv: "list_all events_duplicated stock"
    and run: "rolloutPartition dynRun opRun eventTimes s cs i (n, x, stock) = Inr (n', x', stock')"
  shows "list_all events_duplicated stock' \<and> length stock' = length stock
       \<and> (\<forall>j. j \<noteq> i \<longrightarrow> stock' ! j = stock ! j)"
proof -
  from run obtain t0 tc tf c x1 stock1 where
    ctrl: "controllerRollout dynRun eventTimes c (t0, tc) i (x, stock) = Inr (x1, stock1)"
    and opp: "operatingPointsRollout opRun eventTimes (tc, tf) i (x1, stock1) = Inr (x', stock')"
    unfolding rolloutPartition_def Let_def
    by (auto split: sum.splits prod.splits)
  from controllerRollout_duplicated[OF dyn clear inv ctrl]
  have s1: "list_all events_duplicated stock1" "length stock1 = length stock"
    "\<forall>j. j \<noteq> i \<longrightarrow> stock1 ! j = stock ! j"
    "i < length stock1 \<longrightarrow> stock1 ! i = trajectory_clear \<or> segment_ok t0 (stock1 ! i)"
    by auto
  from operatingPointsRollout_duplicated[OF op s1(4) s1(1) opp] s1 show ?thesis by simp
qed

lemma rolloutPartitions_duplicated:
  assumes dyn: "integrator_contract dynRun" and op: "integrator_contract opRun"
  shows "distinct is \<Longrightarrow> \<forall>i\<in>set is. i < length stock \<longrightarrow> stock ! i = trajectory_clear \<Longrightarrow>
     list_all events_duplicated stock \<Longrightarrow>
     rolloutPartitions dynRun opRun eventTimes s cs is (n, x, stock) = Inr (n', x', stock') \<Longrightarrow>
     list_all events_duplicated stock' \<and> length stock' = length stock"
proof (induction "is" arbitrary: n x stock)
  case Nil
  then show ?case by simp
next
  case (Cons i "is")
  from Cons.prems(4) obtain n1 x1 stock1 where
    one: "rolloutPartition dynRun opRun eventTimes s cs i (n, x, stock) = Inr (n1, x1, stock1)"
    and rest: "rolloutPartitions dynRun opRun eventTimes s cs is (n1, x1, stock1) = Inr (n', x', stock')"
    by (auto split: sum.splits)
  from Cons.prems(2) have "i < length stock \<longrightarrow> stock ! i = trajectory_clear" by simp
  from rolloutPartition_duplicated[OF dyn op this Cons.prems(3) one]
  have s1: "list_all events_duplicated stock1" "length stock1 = length stock"
    "\<forall>j. j \<noteq> i \<longrightarrow> stock1 ! j = stock ! j" by auto
  from Cons.prems(1,2) s1 have "\<forall>j\<in>set is. j < length stock1 \<longrightarrow> stock1 ! j = trajectory_clear"
    by auto
  from Cons.IH[OF _ this s1(1) rest] Cons.prems(1) s1(2) show ?case by simp
qed

lemma rolloutTrajectory_Inr:
  assumes "rolloutTrajectory dynRun opRun eventTimes s cs out = Inr (avg, stock)"
  shows "\<exists>n x. rolloutPartitions dynRun opRun eventTimes s cs
            [initActivePartition s..<finalActivePartition s + 1]
            (0, initState s, replicate (numPartitions s) trajectory_clear) = Inr (n, x, stock)"
proof (cases "rolloutPartitions dynRun opRun eventTimes s cs
            [initActivePartition s..<finalActivePartition s + 1]
            (0, initState s, replicate (numPartitions s) trajectory_clear)")
  case (Inl err)
  with assms show ?thesis
    by (cases "length cs = numPartitions s") (simp_all add: rolloutTrajectory_def)
next
  case (Inr acc)
  obtain n x stock1 where acc: "acc = (n, x, stock1)" by (cases acc) auto
  from assms Inr acc have "stock1 = stock"
    by (cases "length cs = numPartitions s"; cases "allFinite x";
        cases "list_ex (\<lambda>i. length (modelDataTrajectory (stock1 ! i)) \<noteq> length (timeTrajectory (stock1 ! i)))
                 [initActivePartition s..<finalActivePartition s + 1]")
       (simp_all add: rolloutTrajectory_def)
  with Inr acc show ?thesis by simp
qed

text \<open>
  Claim C7. When the integrators keep their contract, every rollout that
  \<^verbatim>\<open>rolloutTrajectory\<close> returns has, in every partition \<open>i\<close> and for every post-event
  index \<open>j\<close> of it, two samples \<open>j - 1\<close> and \<open>j\<close> with the same time stamp; this covers
  the partitions whose controller interval ended at a post-event sample that was popped
  before the operating-point interval was appended.
\<close>

theorem rolloutTrajectory_events_duplicated:
  assumes "integrator_contract dynRun" "integrator_contract opRun"
    and "rolloutTrajectory dynRun opRun eventTimes s cs out = Inr (avg, stock)"
  shows "length stock = numPartitions s
       \<and> (\<forall>i<numPartitions s. \<forall>j\<in>set (postEventIndices (stock ! i)).
             0 < j \<and> j < length (timeTrajectory (stock ! i))
             \<and> timeTrajectory (stock ! i) ! (j - 1) = timeTrajectory (stock ! i) ! j)"
proof -
  from rolloutTrajectory_Inr[OF assms(3)] obtain n x where
    run: "rolloutPartitions dynRun opRun eventTimes s cs
            [initActivePartition s..<finalActivePartition s + 1]
            (0, initState s, replicate (numPartitions s) trajectory_clear) = Inr (n, x, stock)"
    by blast
  have "list_all events_duplicated (replicate (numPartitions s) (trajectory_clear :: 'a trajectory))"
    by (simp add: list_all_iff)
  from rolloutPartitions_duplicated[OF assms(1,2) _ _ this run]
  have all: "list_all events_duplicated stock" and len: "length stock = numPartitions s" by simp_all
  have "\<forall>i<numPartitions s. events_duplicated (stock ! i)"
    using all len by (simp add: list_all_length)
  with len show ?thesis by (simp add: events_duplicated_iff)
qed

lemma holdRun_contract: "integrator_contract holdRun"
  by (auto simp: integrator_contract_def holdRun_def segment_ok_def events_duplicated_def Let_def
      split: option.splits if_splits)

text \<open>
  The controller ends at the event time 1, the controller interval ends at the post-event
  sample, which is popped, and the operating points take over from there.
\<close>

lemma demo_rollout:
  "rolloutTrajectory holdRun holdRun [1] demoHorizon [demoTimedController [0, 1]] []
     = Inr (FpFinite (1 / 2),
            [\<lparr>timeTrajectory = [0, 1, 1, 2], postEventIndices = [2],
              stateTrajectory = [[FpFinite 1], [FpFinite 1], [FpFinite 1], [FpFinite 1]],
              inputTrajectory = [[0], [0], [], []],
              modelDataTrajectory = [(), (), (), ()]\<rparr>])"
  by code_simp

theorem rolloutTrajectory_events_duplicated_witness:
  "integrator_contract holdRun
   \<and> rolloutTrajectory holdRun holdRun [1] demoHorizon [demoTimedController [0, 1]] []
     = Inr (FpFinite (1 / 2),
            [\<lparr>timeTrajectory = [0, 1, 1, 2], postEventIndices = [2],
              stateTrajectory = [[FpFinite 1], [FpFinite 1], [FpFinite 1], [FpFinite 1]],
              inputTrajectory = [[0], [0], [], []],
              modelDataTrajectory = [(), (), (), ()]\<rparr>])
   \<and> [0, 1, 1, 2 :: real] ! (2 - 1) = [0, 1, 1, 2] ! 2"
  using rolloutTrajectory_events_duplicated[OF holdRun_contract holdRun_contract demo_rollout]
    holdRun_contract demo_rollout
  by simp


section \<open>Properties of the line search\<close>

lemma candidateRate_antimono:
  assumes "ls_params_ok st s0" "i \<le> j"
  shows "candidateRate st s0 j \<le> candidateRate st s0 i"
proof -
  from assms(1) have r: "0 \<le> lineSearchContractionRate st" "lineSearchContractionRate st \<le> 1"
    and m: "0 \<le> maxLearningRateMember s0"
    by (simp_all add: ls_params_ok_def)
  from power_decreasing[OF assms(2) r] m show ?thesis
    by (simp add: candidateRate_def mult_left_mono)
qed

lemma candidateRate_strict:
  assumes "ls_params_ok st s0" "i < j"
  shows "candidateRate st s0 j < candidateRate st s0 i"
proof -
  from assms(1) have r: "0 < lineSearchContractionRate st" "lineSearchContractionRate st < 1"
    and m: "0 < maxLearningRateMember s0"
    by (simp_all add: ls_params_ok_def)
  from power_strict_decreasing[OF assms(2) r] m show ?thesis
    by (simp add: candidateRate_def)
qed

lemma candidateRate_pos: "ls_params_ok st s0 \<Longrightarrow> 0 < candidateRate st s0 j"
  by (simp add: ls_params_ok_def candidateRate_def)

lemma length_incrementBiasStock [simp]:
  "length (incrementBiasStock n a cs) = length cs"
proof -
  have "length (foldl (\<lambda>cs i. cs[i := incrementBias a (cs ! i)]) cs is) = length cs" for "is"
    by (induction "is" arbitrary: cs) simp_all
  then show ?thesis by (simp add: incrementBiasStock_def)
qed

lemma lineSearchWorker_totalCost:
  "l_totalCost (lineSearchWorker ev st iter (numPartitions s0) a
       (l\<lparr>l_controllersStock := initLScontrollersStock s0\<rparr>))
     = candidateMerit ev st iter s0 a"
  by (simp add: lineSearchWorker_def candidateMerit_def Let_def calculateRolloutMerit_def merit_spec_def
      split: sum.splits prod.splits)

lemma lineSearchWorker_controllers:
  "length (l_controllersStock (lineSearchWorker ev st iter n a l)) = length (l_controllersStock l)"
  by (simp add: lineSearchWorker_def Let_def split: sum.splits prod.splits)

lemma lineSearchWorker_killed_locals:
  "l_totalCost (lineSearchWorker_killed n a partial l) = scalar_max"
  "length (l_controllersStock (lineSearchWorker_killed n a partial l)) = length (l_controllersStock l)"
  by (simp_all add: lineSearchWorker_killed_def Let_def)


lemma disposed_mono:
  assumes "disposed st s0 s j" "\<And>i. processed s i \<Longrightarrow> processed s' i"
    "learningRateStar s \<le> learningRateStar s'"
  shows "disposed st s0 s' j"
  using assms unfolding disposed_def by force

lemma task_inv_mono:
  assumes t: "task_inv ev st iter s0 s t"
    and proc: "\<And>i. processed s i \<Longrightarrow> processed s' i"
    and fresh: "\<And>i. held (place t) = Some i \<Longrightarrow> \<not> processed s' i"
    and star: "learningRateStar s \<le> learningRateStar s'"
    and nxt: "alphaExpNext s \<le> alphaExpNext s'"
    and len: "length (alphaProcessed s') = length (alphaProcessed s)"
  shows "task_inv ev st iter s0 s' t"
proof (cases "place t")
  case AtLoopHead
  then show ?thesis by (simp add: task_inv_def)
next
  case (AtSkipTest j a)
  with t fresh[of j] nxt len show ?thesis by (simp add: task_inv_def claim_ok_def)
next
  case (AtWorker j a)
  with t fresh[of j] nxt len show ?thesis by (simp add: task_inv_def claim_ok_def)
next
  case (AtLock j a)
  with t fresh[of j] nxt len star show ?thesis by (auto simp: task_inv_def claim_ok_def)
next
  case AtKill
  with t show ?thesis
    by (auto simp: task_inv_def intro: disposed_mono[OF _ proc star])
next
  case TaskReturned
  with t nxt show ?thesis
    by (auto simp: task_inv_def intro: disposed_mono[OF _ proc star])
qed

lemma ls_invD:
  assumes "ls_inv ev st iter s0 (s, ts)"
  shows "ls_frame s0 s"
    and "ls_star ev st iter s0 s"
    and "\<And>k. k < length ts \<Longrightarrow> task_inv ev st iter s0 s (ts ! k)"
    and "\<And>k k' j. k < length ts \<Longrightarrow> k' < length ts \<Longrightarrow> held (place (ts ! k)) = Some j
                   \<Longrightarrow> held (place (ts ! k')) = Some j \<Longrightarrow> k = k'"
    and "killIntegration s \<Longrightarrow> (\<forall>j. disposed st s0 s j)"
    and "\<And>j. processed s j \<Longrightarrow> passes ev st iter s0 j \<Longrightarrow> candidateRate st s0 j \<le> learningRateStar s"
    and "\<And>j. j < alphaExpNext s \<Longrightarrow>
                      disposed st s0 s j \<or> (\<exists>k<length ts. held (place (ts ! k)) = Some j)"
    and "\<And>j. processed s j \<Longrightarrow> j < alphaExpNext s"
  using assms unfolding ls_inv_def prod.case by blast+

lemma ls_inv_update:
  assumes inv: "ls_inv ev st iter s0 (s, ts)" and k: "k < length ts"
    and frame: "ls_frame s0 s'"
    and star: "ls_star ev st iter s0 s'"
    and proc: "\<And>i. processed s i \<Longrightarrow> processed s' i"
    and own: "\<And>i. processed s' i \<Longrightarrow> \<not> processed s i \<Longrightarrow> held (place (ts ! k)) = Some i"
    and mono: "learningRateStar s \<le> learningRateStar s'"
    and nxt: "alphaExpNext s \<le> alphaExpNext s'"
    and tinv: "task_inv ev st iter s0 s' t'"
    and held': "held (place t') = None \<or> held (place t') = held (place (ts ! k))
                 \<or> (held (place t') = Some (alphaExpNext s) \<and> alphaExpNext s < alphaExpNext s')"
    and kill: "killIntegration s' \<Longrightarrow> killIntegration s \<or> (\<forall>j. disposed st s0 s' j)"
    and pp: "\<And>j. processed s' j \<Longrightarrow> \<not> processed s j \<Longrightarrow> passes ev st iter s0 j
                \<Longrightarrow> candidateRate st s0 j \<le> learningRateStar s'"
    and claimed: "\<And>j. j < alphaExpNext s' \<Longrightarrow> held (place (ts ! k)) = Some j \<or> alphaExpNext s \<le> j
                \<Longrightarrow> disposed st s0 s' j \<or> held (place t') = Some j"
  shows "ls_inv ev st iter s0 (s', ts[k := t'])"
proof -
  note i_frame = ls_invD(1)[OF inv] and i_task = ls_invD(3)[OF inv]
    and i_dist = ls_invD(4)[OF inv] and i_kill = ls_invD(5)[OF inv] and i_pp = ls_invD(6)[OF inv]
    and i_claimed = ls_invD(7)[OF inv] and i_next = ls_invD(8)[OF inv]
  have len: "length (alphaProcessed s') = length (alphaProcessed s)"
    using frame i_frame by (simp add: ls_frame_def)
  have held_lt: "\<And>k' i. k' < length ts \<Longrightarrow> held (place (ts ! k')) = Some i \<Longrightarrow> i < alphaExpNext s"
  proof -
    fix k' i assume a: "k' < length ts" "held (place (ts ! k')) = Some i"
    from i_task[OF a(1)] a(2) show "i < alphaExpNext s"
      by (cases "place (ts ! k')") (simp_all add: task_inv_def claim_ok_def)
  qed
  have tasks: "\<forall>k'<length (ts[k := t']). task_inv ev st iter s0 s' (ts[k := t'] ! k')"
  proof (intro allI impI)
    fix k' assume k': "k' < length (ts[k := t'])"
    show "task_inv ev st iter s0 s' (ts[k := t'] ! k')"
    proof (cases "k' = k")
      case True
      with k tinv show ?thesis by simp
    next
      case False
      have "\<And>i. held (place (ts ! k')) = Some i \<Longrightarrow> \<not> processed s' i"
      proof
        fix i assume h: "held (place (ts ! k')) = Some i" and p: "processed s' i"
        from i_task[of k'] k' h have "\<not> processed s i"
          by (cases "place (ts ! k')") (simp_all add: task_inv_def claim_ok_def)
        from own[OF p this] i_dist[of k k' i] h k k' False show False by simp
      qed
      from task_inv_mono[OF i_task[of k'] proc this mono nxt len] k' False
      show ?thesis by simp
    qed
  qed
  have dist: "\<forall>k1<length (ts[k := t']). \<forall>k2<length (ts[k := t']). \<forall>j.
      held (place (ts[k := t'] ! k1)) = Some j \<and> held (place (ts[k := t'] ! k2)) = Some j \<longrightarrow> k1 = k2"
  proof (intro allI impI)
    fix k1 k2 j
    assume k1: "k1 < length (ts[k := t'])" and k2: "k2 < length (ts[k := t'])"
      and h: "held (place (ts[k := t'] ! k1)) = Some j \<and> held (place (ts[k := t'] ! k2)) = Some j"
    have other: "k' = k" if "k' < length ts" "held (place (ts ! k')) = Some j"
      "held (place t') = Some j" for k'
    proof -
      from held' that(3) consider "held (place (ts ! k)) = Some j" | "j = alphaExpNext s" by auto
      then show ?thesis
      proof cases
        case 1
        from i_dist[OF that(1) k that(2) 1] show ?thesis .
      next
        case 2
        with held_lt[OF that(1,2)] show ?thesis by simp
      qed
    qed
    show "k1 = k2"
    proof (cases "k1 = k"; cases "k2 = k")
      assume "k1 = k" "k2 = k" then show ?thesis by simp
    next
      assume a: "k1 = k" "k2 \<noteq> k"
      with h k k2 other[of k2] show ?thesis by simp
    next
      assume a: "k1 \<noteq> k" "k2 = k"
      with h k k1 other[of k1] show ?thesis by simp
    next
      assume a: "k1 \<noteq> k" "k2 \<noteq> k"
      with h k1 k2 i_dist[of k1 k2 j] show ?thesis by simp
    qed
  qed
  have killed: "killIntegration s' \<longrightarrow> (\<forall>j. disposed st s0 s' j)"
  proof
    assume "killIntegration s'"
    from kill[OF this] show "\<forall>j. disposed st s0 s' j"
    proof
      assume "killIntegration s"
      from i_kill[OF this] show ?thesis by (auto intro: disposed_mono[OF _ proc mono])
    qed
  qed
  have pps: "\<forall>j. processed s' j \<and> passes ev st iter s0 j \<longrightarrow> candidateRate st s0 j \<le> learningRateStar s'"
  proof (intro allI impI)
    fix j assume a: "processed s' j \<and> passes ev st iter s0 j"
    show "candidateRate st s0 j \<le> learningRateStar s'"
    proof (cases "processed s j")
      case True
      with i_pp[of j] a mono show ?thesis by simp
    next
      case False
      with pp[of j] a show ?thesis by simp
    qed
  qed
  have cl: "\<forall>j<alphaExpNext s'. disposed st s0 s' j
      \<or> (\<exists>k'<length (ts[k := t']). held (place (ts[k := t'] ! k')) = Some j)"
  proof (intro allI impI)
    fix j assume j: "j < alphaExpNext s'"
    have mine: "held (place (ts ! k)) = Some j \<or> alphaExpNext s \<le> j \<Longrightarrow>
        disposed st s0 s' j \<or> (\<exists>k'<length (ts[k := t']). held (place (ts[k := t'] ! k')) = Some j)"
      using claimed[OF j] k by (auto intro: exI[of _ k])
    show "disposed st s0 s' j \<or> (\<exists>k'<length (ts[k := t']). held (place (ts[k := t'] ! k')) = Some j)"
    proof (cases "j < alphaExpNext s")
      case False
      with mine show ?thesis by simp
    next
      case True
      from i_claimed[OF True] show ?thesis
      proof
        assume "disposed st s0 s j"
        from disposed_mono[OF this proc mono] show ?thesis by simp
      next
        assume "\<exists>k'<length ts. held (place (ts ! k')) = Some j"
        then obtain k' where k': "k' < length ts" "held (place (ts ! k')) = Some j" by blast
        show ?thesis
        proof (cases "k' = k")
          case True
          with k' mine show ?thesis by simp
        next
          case False
          with k' have "k' < length (ts[k := t']) \<and> held (place (ts[k := t'] ! k')) = Some j"
            by simp
          then show ?thesis by blast
        qed
      qed
    qed
  qed
  have nx: "\<forall>j. processed s' j \<longrightarrow> j < alphaExpNext s'"
  proof (intro allI impI)
    fix j assume p: "processed s' j"
    show "j < alphaExpNext s'"
    proof (cases "processed s j")
      case True
      from i_next[OF this] nxt show ?thesis by simp
    next
      case False
      from own[OF p False] held_lt[OF k] nxt show ?thesis by fastforce
    qed
  qed
  from frame star tasks dist killed pps cl nx show ?thesis
    unfolding ls_inv_def by simp
qed


lemma processed_simps [simp]:
  "processed (s\<lparr>alphaExpNext := n\<rparr>) j = processed s j"
  "processed (s\<lparr>rolloutCalls := c\<rparr>) j = processed s j"
  "processed (s\<lparr>killIntegration := b\<rparr>) j = processed s j"
  by (simp_all add: processed_def)

lemma processed_update:
  "processed (s\<lparr>alphaProcessed := (alphaProcessed s)[j := True]\<rparr>) i
     = (processed s i \<or> (i = j \<and> j < length (alphaProcessed s)))"
  by (cases "i = j") (auto simp: processed_def)

lemma event_loopHead:
  assumes ok: "ls_params_ok st s0" and inv: "ls_inv ev st iter s0 (s, ts)"
    and k: "k < length ts" and pl: "place (ts ! k) = AtLoopHead"
  shows "ls_inv ev st iter s0
           (case lineSearchTask_step ev st iter intr (s, ts ! k) of (s', t') \<Rightarrow> (s', ts[k := t']))"
proof -
  note fr = ls_invD(1)[OF inv]
  let ?n = "alphaExpNext s"
  let ?a = "candidateRate st s0 ?n"
  define s' where "s' = s\<lparr>alphaExpNext := ?n + 1\<rparr>"
  define t' where "t' = (ts ! k)\<lparr>place := (if minLearningRate st \<le> ?a then AtSkipTest ?n ?a else TaskReturned)\<rparr>"
  have step: "lineSearchTask_step ev st iter intr (s, ts ! k) = (s', t')"
    using pl fr
    by (simp add: lineSearchTask_step_def Let_def s'_def t'_def almost_ge_def candidateRate_def
        ls_frame_def)
  have frame: "ls_frame s0 s'" using fr by (simp add: s'_def ls_frame_def)
  have star: "ls_star ev st iter s0 s'"
    using ls_invD(2)[OF inv] by (simp add: s'_def ls_star_def)
  have tinv: "task_inv ev st iter s0 s' t'"
  proof (cases "minLearningRate st \<le> ?a")
    case True
    from ok True fr have "?n < length (alphaProcessed s)"
      by (simp add: ls_params_ok_def ls_frame_def)
    moreover from ls_invD(8)[OF inv, of ?n] have "\<not> processed s ?n" by auto
    ultimately show ?thesis using True
      by (simp add: task_inv_def t'_def s'_def claim_ok_def)
  next
    case False
    have "disposed st s0 s' j" if "?n + 1 \<le> j" for j
    proof -
      from that have "?n \<le> j" by simp
      from candidateRate_antimono[OF ok this] False show ?thesis
        by (simp add: disposed_def)
    qed
    with False show ?thesis by (simp add: task_inv_def t'_def s'_def)
  qed
  have "ls_inv ev st iter s0 (s', ts[k := t'])"
  proof (rule ls_inv_update[OF inv k frame star _ _ _ _ tinv])
    show "held (place t') = None \<or> held (place t') = held (place (ts ! k))
           \<or> (held (place t') = Some (alphaExpNext s) \<and> alphaExpNext s < alphaExpNext s')"
      by (simp add: t'_def s'_def)
    show "killIntegration s' \<Longrightarrow> killIntegration s \<or> (\<forall>j. disposed st s0 s' j)"
      by (simp add: s'_def)
    fix j
    assume "j < alphaExpNext s'" "held (place (ts ! k)) = Some j \<or> alphaExpNext s \<le> j"
    with pl have "j = alphaExpNext s" by (simp add: s'_def)
    then show "disposed st s0 s' j \<or> held (place t') = Some j"
      by (cases "minLearningRate st \<le> ?a") (simp_all add: t'_def disposed_def)
  qed (simp_all add: s'_def)
  with step show ?thesis by simp
qed

lemma event_skipTest:
  assumes ok: "ls_params_ok st s0" and inv: "ls_inv ev st iter s0 (s, ts)"
    and k: "k < length ts" and pl: "place (ts ! k) = AtSkipTest j a"
  shows "ls_inv ev st iter s0
           (case lineSearchTask_step ev st iter intr (s, ts ! k) of (s', t') \<Rightarrow> (s', ts[k := t']))"
proof -
  define t' where "t' = (ts ! k)\<lparr>place := (if a < learningRateStar s then TaskReturned else AtWorker j a)\<rparr>"
  have step: "lineSearchTask_step ev st iter intr (s, ts ! k) = (s, t')"
    using pl by (simp add: lineSearchTask_step_def t'_def)
  from ls_invD(3)[OF inv k] pl have c: "claim_ok st s0 s j a" by (simp add: task_inv_def)
  have tinv: "task_inv ev st iter s0 s t'"
  proof (cases "a < learningRateStar s")
    case False
    with c show ?thesis by (simp add: task_inv_def t'_def)
  next
    case True
    have "disposed st s0 s i" if "alphaExpNext s \<le> i" for i
    proof -
      from that c have "j \<le> i" by (simp add: claim_ok_def)
      from candidateRate_antimono[OF ok this] True c show ?thesis
        by (simp add: disposed_def claim_ok_def)
    qed
    with True show ?thesis by (simp add: task_inv_def t'_def)
  qed
  have "ls_inv ev st iter s0 (s, ts[k := t'])"
  proof (rule ls_inv_update[OF inv k ls_invD(1)[OF inv] ls_invD(2)[OF inv] _ _ _ _ tinv])
    show "held (place t') = None \<or> held (place t') = held (place (ts ! k))
           \<or> (held (place t') = Some (alphaExpNext s) \<and> alphaExpNext s < alphaExpNext s)"
      using pl by (simp add: t'_def)
    fix i
    show "i < alphaExpNext s \<Longrightarrow> held (place (ts ! k)) = Some i \<or> alphaExpNext s \<le> i
            \<Longrightarrow> disposed st s0 s i \<or> held (place t') = Some i"
      using pl c by (auto simp: t'_def disposed_def claim_ok_def)
  qed simp_all
  with step show ?thesis by simp
qed


lemma event_worker:
  assumes ok: "ls_params_ok st s0" and inv: "ls_inv ev st iter s0 (s, ts)"
    and k: "k < length ts" and pl: "place (ts ! k) = AtWorker j a"
  shows "ls_inv ev st iter s0
           (case lineSearchTask_step ev st iter intr (s, ts ! k) of (s', t') \<Rightarrow> (s', ts[k := t']))"
proof -
  note fr = ls_invD(1)[OF inv]
  define s' where "s' = s\<lparr>rolloutCalls := rolloutCalls s + 1\<rparr>"
  define l0 where "l0 = (locals (ts ! k))\<lparr>l_controllersStock := initLScontrollersStock s0\<rparr>"
  define l' where "l' = (case intr of
       Some partial \<Rightarrow>
         if killIntegration s
         then lineSearchWorker_killed (numPartitions s0) a partial l0
         else lineSearchWorker ev st iter (numPartitions s0) a l0
     | None \<Rightarrow> lineSearchWorker ev st iter (numPartitions s0) a l0)"
  define t' where "t' = \<lparr>place = AtLock j a, locals = l'\<rparr>"
  from fr have np: "numPartitions s = numPartitions s0"
    and ic: "initLScontrollersStock s = initLScontrollersStock s0"
    by (simp_all add: ls_frame_def)
  have step: "lineSearchTask_step ev st iter intr (s, ts ! k) = (s', t')"
    using pl unfolding np ic
    by (simp add: lineSearchTask_step_def Let_def s'_def t'_def l'_def l0_def np ic
        split: option.splits)
  from ls_invD(3)[OF inv k] pl have c: "claim_ok st s0 s j a" by (simp add: task_inv_def)
  have len: "length (l_controllersStock l') = length (initLScontrollersStock s0)"
    by (simp add: l'_def l0_def lineSearchWorker_controllers lineSearchWorker_killed_locals
        split: option.splits)
  have cost: "l_totalCost l' = candidateMerit ev st iter s0 a \<or> a < learningRateStar s"
  proof (cases "killIntegration s \<and> intr \<noteq> None")
    case False
    then have "l' = lineSearchWorker ev st iter (numPartitions s0) a l0"
      by (auto simp: l'_def split: option.splits)
    then show ?thesis by (simp add: l0_def lineSearchWorker_totalCost)
  next
    case True
    with ls_invD(5)[OF inv] have "disposed st s0 s j" by simp
    with c show ?thesis by (auto simp: disposed_def claim_ok_def)
  qed
  have tinv: "task_inv ev st iter s0 s' t'"
    using c len cost by (simp add: task_inv_def t'_def s'_def claim_ok_def)
  have "ls_inv ev st iter s0 (s', ts[k := t'])"
  proof (rule ls_inv_update[OF inv k _ _ _ _ _ _ tinv])
    show "ls_frame s0 s'" using fr by (simp add: s'_def ls_frame_def)
    show "ls_star ev st iter s0 s'" using ls_invD(2)[OF inv] by (simp add: s'_def ls_star_def)
    show "held (place t') = None \<or> held (place t') = held (place (ts ! k))
           \<or> (held (place t') = Some (alphaExpNext s) \<and> alphaExpNext s < alphaExpNext s')"
      using pl by (simp add: t'_def)
    show "killIntegration s' \<Longrightarrow> killIntegration s \<or> (\<forall>j. disposed st s0 s' j)"
      by (simp add: s'_def)
    fix i
    show "i < alphaExpNext s' \<Longrightarrow> held (place (ts ! k)) = Some i \<or> alphaExpNext s \<le> i
            \<Longrightarrow> disposed st s0 s' i \<or> held (place t') = Some i"
      using pl by (auto simp: t'_def s'_def)
  qed (simp_all add: s'_def)
  with step show ?thesis by simp
qed

lemma event_kill:
  assumes inv: "ls_inv ev st iter s0 (s, ts)"
    and k: "k < length ts" and pl: "place (ts ! k) = AtKill"
  shows "ls_inv ev st iter s0
           (case lineSearchTask_step ev st iter intr (s, ts ! k) of (s', t') \<Rightarrow> (s', ts[k := t']))"
proof -
  define s' where "s' = s\<lparr>killIntegration := True\<rparr>"
  define t' where "t' = (ts ! k)\<lparr>place := TaskReturned\<rparr>"
  have step: "lineSearchTask_step ev st iter intr (s, ts ! k) = (s', t')"
    using pl by (simp add: lineSearchTask_step_def s'_def t'_def)
  from ls_invD(3)[OF inv k] pl have d: "\<And>j. disposed st s0 s j" by (simp add: task_inv_def)
  then have d': "\<And>j. disposed st s0 s' j" by (simp add: disposed_def s'_def)
  have tinv: "task_inv ev st iter s0 s' t'"
    using d' by (simp add: task_inv_def t'_def)
  have "ls_inv ev st iter s0 (s', ts[k := t'])"
  proof (rule ls_inv_update[OF inv k _ _ _ _ _ _ tinv])
    show "ls_frame s0 s'" using ls_invD(1)[OF inv] by (simp add: s'_def ls_frame_def)
    show "ls_star ev st iter s0 s'" using ls_invD(2)[OF inv] by (simp add: s'_def ls_star_def)
    show "held (place t') = None \<or> held (place t') = held (place (ts ! k))
           \<or> (held (place t') = Some (alphaExpNext s) \<and> alphaExpNext s < alphaExpNext s')"
      by (simp add: t'_def)
    show "killIntegration s' \<Longrightarrow> killIntegration s \<or> (\<forall>j. disposed st s0 s' j)"
      using d' by simp
    fix i
    show "i < alphaExpNext s' \<Longrightarrow> held (place (ts ! k)) = Some i \<or> alphaExpNext s \<le> i
            \<Longrightarrow> disposed st s0 s' i \<or> held (place t') = Some i"
      using d' by simp
  qed (simp_all add: s'_def)
  with step show ?thesis by simp
qed

lemma event_returned:
  assumes inv: "ls_inv ev st iter s0 (s, ts)"
    and k: "k < length ts" and pl: "place (ts ! k) = TaskReturned"
  shows "(case lineSearchTask_step ev st iter intr (s, ts ! k) of (s', t') \<Rightarrow> (s', ts[k := t']))
           = (s, ts)"
  using pl by (simp add: lineSearchTask_step_def)


lemma event_lock_reject:
  assumes ok: "ls_params_ok st s0" and inv: "ls_inv ev st iter s0 (s, ts)"
    and k: "k < length ts" and pl: "place (ts ! k) = AtLock j a"
    and rej: "\<not> lineSearch_accepts s (l_totalCost (locals (ts ! k))) a"
  shows "ls_inv ev st iter s0
           (case lineSearchTask_step ev st iter intr (s, ts ! k) of (s', t') \<Rightarrow> (s', ts[k := t']))"
proof -
  note fr = ls_invD(1)[OF inv]
  define s' where "s' = s\<lparr>alphaProcessed := (alphaProcessed s)[j := True]\<rparr>"
  define t' where "t' = (ts ! k)\<lparr>place := AtLoopHead\<rparr>"
  have step: "lineSearchTask_step ev st iter intr (s, ts ! k) = (s', t')"
    using pl rej by (simp add: lineSearchTask_step_def Let_def s'_def t'_def)
  from ls_invD(3)[OF inv k] pl have c: "claim_ok st s0 s j a"
    and g: "l_totalCost (locals (ts ! k)) = candidateMerit ev st iter s0 a \<or> a < learningRateStar s"
    by (simp_all add: task_inv_def)
  have proc: "\<And>i. processed s' i = (processed s i \<or> i = j)"
    using c by (auto simp: s'_def processed_update claim_ok_def)
  have tinv: "task_inv ev st iter s0 s' t'" by (simp add: task_inv_def t'_def)
  have "ls_inv ev st iter s0 (s', ts[k := t'])"
  proof (rule ls_inv_update[OF inv k _ _ _ _ _ _ tinv])
    show "ls_frame s0 s'" using fr by (simp add: s'_def ls_frame_def)
    show "ls_star ev st iter s0 s'" using ls_invD(2)[OF inv] by (simp add: s'_def ls_star_def)
    show "held (place t') = None \<or> held (place t') = held (place (ts ! k))
           \<or> (held (place t') = Some (alphaExpNext s) \<and> alphaExpNext s < alphaExpNext s')"
      by (simp add: t'_def)
    show "killIntegration s' \<Longrightarrow> killIntegration s \<or> (\<forall>j. disposed st s0 s' j)"
      by (simp add: s'_def)
    show "\<And>i. processed s i \<Longrightarrow> processed s' i" by (simp add: proc)
    show "\<And>i. processed s' i \<Longrightarrow> \<not> processed s i \<Longrightarrow> held (place (ts ! k)) = Some i"
      using pl by (auto simp: proc)
    show "learningRateStar s \<le> learningRateStar s'" by (simp add: s'_def)
    show "alphaExpNext s \<le> alphaExpNext s'" by (simp add: s'_def)
    show "\<And>i. processed s' i \<Longrightarrow> \<not> processed s i \<Longrightarrow> passes ev st iter s0 i
            \<Longrightarrow> candidateRate st s0 i \<le> learningRateStar s'"
    proof -
      fix i assume "processed s' i" "\<not> processed s i" and p: "passes ev st iter s0 i"
      then have i: "i = j" by (simp add: proc)
      from c have a: "a = candidateRate st s0 j" by (simp add: claim_ok_def)
      from g show "candidateRate st s0 i \<le> learningRateStar s'"
      proof
        assume "l_totalCost (locals (ts ! k)) = candidateMerit ev st iter s0 a"
        with p i a fr have "l_totalCost (locals (ts ! k)) < baselineTotalCost s * (1 - 0.001 * a)"
          by (simp add: passes_def descends_def ls_frame_def)
        with rej i a show ?thesis by (simp add: s'_def lineSearch_accepts_def)
      next
        assume "a < learningRateStar s"
        with i a show ?thesis by (simp add: s'_def)
      qed
    qed
    show "\<And>i. i < alphaExpNext s' \<Longrightarrow> held (place (ts ! k)) = Some i \<or> alphaExpNext s \<le> i
            \<Longrightarrow> disposed st s0 s' i \<or> held (place t') = Some i"
      using pl by (auto simp: s'_def disposed_def proc[unfolded s'_def])
  qed
  with step show ?thesis by simp
qed

lemma event_lock_accept:
  assumes ok: "ls_params_ok st s0" and inv: "ls_inv ev st iter s0 (s, ts)"
    and k: "k < length ts" and pl: "place (ts ! k) = AtLock j a"
    and accepts: "lineSearch_accepts s (l_totalCost (locals (ts ! k))) a"
  shows "ls_inv ev st iter s0
           (case lineSearchTask_step ev st iter intr (s, ts ! k) of (s', t') \<Rightarrow> (s', ts[k := t']))"
proof -
  note fr = ls_invD(1)[OF inv]
  let ?l = "locals (ts ! k)"
  obtain s' t' where step: "lineSearchTask_step ev st iter intr (s, ts ! k) = (s', t')"
    by force
  from accepts have acc: "l_totalCost (locals (ts ! k)) < baselineTotalCost s * (1 - 0.001 * a)"
    "a > learningRateStar s"
    by (simp_all add: lineSearch_accepts_def)
  from step pl accepts have f:
    "learningRateStar s' = a" "nominalTotalCost s' = l_totalCost ?l"
    "alphaProcessed s' = (alphaProcessed s)[j := True]"
    "alphaExpNext s' = alphaExpNext s" "killIntegration s' = killIntegration s"
    "baselineTotalCost s' = baselineTotalCost s"
    "initLScontrollersStock s' = initLScontrollersStock s"
    "maxLearningRateMember s' = maxLearningRateMember s"
    "numPartitions s' = numPartitions s"
    "nominalControllersStock s' = l_controllersStock ?l"
    "place t' = (if list_all (\<lambda>i. alphaProcessed s ! i) [0..<j] then AtKill else AtLoopHead)"
    by (auto simp: lineSearchTask_step_def Let_def)
  from ls_invD(3)[OF inv k] pl have c: "claim_ok st s0 s j a"
    and g: "l_totalCost ?l = candidateMerit ev st iter s0 a \<or> a < learningRateStar s"
    and lc: "length (l_controllersStock ?l) = length (initLScontrollersStock s0)"
    by (simp_all add: task_inv_def)
  from c have a: "a = candidateRate st s0 j" and jl: "j < length (alphaProcessed s)"
    and amin: "minLearningRate st \<le> a"
    by (simp_all add: claim_ok_def)
  from g acc(2) have gen: "l_totalCost ?l = candidateMerit ev st iter s0 a" by simp
  have pass: "passes ev st iter s0 j"
    using gen acc(1) a amin fr by (simp add: passes_def descends_def ls_frame_def)
  have proc: "\<And>i. processed s' i = (processed s i \<or> i = j)"
    using jl f(3) by (auto simp: processed_def nth_list_update)
  from ls_invD(2)[OF inv] have star0: "0 \<le> learningRateStar s" by (auto simp: ls_star_def)
  have disp: "disposed st s0 s' i" if "list_all (\<lambda>i. alphaProcessed s ! i) [0..<j]" for i
  proof -
    consider "i < j" | "i = j" | "j < i" by linarith
    then show ?thesis
    proof cases
      case 1
      with that jl have "processed s i" by (simp add: list_all_iff processed_def)
      then show ?thesis by (simp add: disposed_def proc)
    next
      case 2
      then show ?thesis by (simp add: disposed_def proc)
    next
      case 3
      from candidateRate_strict[OF ok 3] a f(1) show ?thesis by (simp add: disposed_def)
    qed
  qed
  have tinv: "task_inv ev st iter s0 s' t'"
    using disp by (auto simp: task_inv_def f(11))
  have "ls_inv ev st iter s0 (s', ts[k := t'])"
  proof (rule ls_inv_update[OF inv k _ _ _ _ _ _ tinv])
    show "ls_frame s0 s'" using fr lc f by (simp add: ls_frame_def)
    show "ls_star ev st iter s0 s'"
      using pass gen a f(1,2) acc(2) star0 unfolding ls_star_def by (intro disjI2) auto
    show "held (place t') = None \<or> held (place t') = held (place (ts ! k))
           \<or> (held (place t') = Some (alphaExpNext s) \<and> alphaExpNext s < alphaExpNext s')"
      by (simp add: f(11))
    show "killIntegration s' \<Longrightarrow> killIntegration s \<or> (\<forall>j. disposed st s0 s' j)"
      by (simp add: f)
    show "\<And>i. processed s i \<Longrightarrow> processed s' i" by (simp add: proc)
    show "\<And>i. processed s' i \<Longrightarrow> \<not> processed s i \<Longrightarrow> held (place (ts ! k)) = Some i"
      using pl by (auto simp: proc)
    show "learningRateStar s \<le> learningRateStar s'" using acc(2) f(1) by simp
    show "alphaExpNext s \<le> alphaExpNext s'" by (simp add: f)
    show "\<And>i. processed s' i \<Longrightarrow> \<not> processed s i \<Longrightarrow> passes ev st iter s0 i
            \<Longrightarrow> candidateRate st s0 i \<le> learningRateStar s'"
      using a f(1) by (auto simp: proc)
    show "\<And>i. i < alphaExpNext s' \<Longrightarrow> held (place (ts ! k)) = Some i \<or> alphaExpNext s \<le> i
            \<Longrightarrow> disposed st s0 s' i \<or> held (place t') = Some i"
      using pl by (auto simp: f disposed_def proc)
  qed
  with step show ?thesis by simp
qed

lemma ls_inv_event:
  assumes ok: "ls_params_ok st s0" and inv: "ls_inv ev st iter s0 cfg"
  shows "ls_inv ev st iter s0 (lineSearch_event ev st iter cfg e)"
proof -
  obtain s ts where cfg: "cfg = (s, ts)" by (cases cfg)
  let ?k = "event_task e"
  show ?thesis
  proof (cases "?k < length ts")
    case False
    with inv cfg show ?thesis by (simp add: lineSearch_event_def)
  next
    case True
    have "ls_inv ev st iter s0
       (case lineSearchTask_step ev st iter (event_intr e) (s, ts ! ?k) of
          (s', t') \<Rightarrow> (s', ts[?k := t']))"
    proof (cases "place (ts ! ?k)")
      case AtLoopHead
      from event_loopHead[OF ok inv[unfolded cfg] True this] show ?thesis .
    next
      case (AtSkipTest j a)
      from event_skipTest[OF ok inv[unfolded cfg] True this] show ?thesis .
    next
      case (AtWorker j a)
      from event_worker[OF ok inv[unfolded cfg] True this] show ?thesis .
    next
      case (AtLock j a)
      show ?thesis
      proof (cases "lineSearch_accepts s (l_totalCost (locals (ts ! ?k))) a")
        case True
        from event_lock_accept[OF ok inv[unfolded cfg] \<open>?k < length ts\<close> AtLock True]
        show ?thesis .
      next
        case False
        from event_lock_reject[OF ok inv[unfolded cfg] \<open>?k < length ts\<close> AtLock False]
        show ?thesis .
      qed
    next
      case AtKill
      from event_kill[OF inv[unfolded cfg] True this] show ?thesis .
    next
      case TaskReturned
      from event_returned[OF inv[unfolded cfg] True this] inv cfg show ?thesis by simp
    qed
    with True cfg show ?thesis by (simp add: lineSearch_event_def)
  qed
qed

lemma ls_inv_runParallel:
  assumes "ls_params_ok st s0" "ls_inv ev st iter s0 cfg"
  shows "ls_inv ev st iter s0 (runParallel ev st iter events cfg)"
  using assms(2) unfolding runParallel_def
  by (induction events arbitrary: cfg) (simp_all add: ls_inv_event[OF assms(1)])

lemma candidate_fits:
  assumes "lineSearch_settings_ok st"
    and "minLearningRate st \<le> maxLearningRate st * lineSearchContractionRate st ^ j"
  shows "j < maxNumOfLineSearches st"
proof -
  let ?r = "lineSearchContractionRate st" and ?lo = "minLearningRate st" and ?hi = "maxLearningRate st"
  from assms(1) have r: "0 < ?r" "?r < 1" and lo: "0 < ?lo" and hi: "0 < ?hi"
    by (auto simp: lineSearch_settings_ok_def)
  from assms(2) hi have "?lo / ?hi \<le> ?r ^ j" by (simp add: pos_divide_le_eq mult.commute)
  moreover from lo hi have "0 < ?lo / ?hi" by simp
  ultimately have "ln (?lo / ?hi) \<le> ln (?r ^ j)" by (simp add: ln_mono)
  also have "\<dots> = real j * ln ?r" using r by (simp add: ln_realpow)
  finally have le: "ln (?lo / ?hi) \<le> real j * ln ?r" .
  from r have neg: "ln ?r < 0" by simp
  from le neg have "real j \<le> ln (?lo / ?hi) / ln ?r"
    by (simp add: neg_le_divide_eq)
  then have "of_int (int j) \<le> ln (?lo / ?hi) / ln ?r" by simp
  then have "int j \<le> \<lfloor>ln (?lo / ?hi) / ln ?r\<rfloor>" by (simp only: le_floor_iff)
  then have "int j < \<lfloor>ln (?lo / ?hi) / ln ?r + 1\<rfloor>" by simp
  then show ?thesis by (simp add: maxNumOfLineSearches_def)
qed

subsection \<open>Clearing the feed-forward increments\<close>

lemma clearFeedforwardIncrements_fold:
  "foldl (\<lambda>s i. s\<lparr>nominalControllersStock :=
              (nominalControllersStock s)[i := (nominalControllersStock s ! i)\<lparr>deltaBiasArray := []\<rparr>]\<rparr>)
     s [0..<n]
   = s\<lparr>nominalControllersStock :=
        foldl (\<lambda>cs i. cs[i := (cs ! i)\<lparr>deltaBiasArray := []\<rparr>]) (nominalControllersStock s) [0..<n]\<rparr>"
  by (induction n) simp_all

lemma clearStock_length:
  "length (foldl (\<lambda>cs i. cs[i := (cs ! i)\<lparr>deltaBiasArray := []\<rparr>]) cs [0..<n]) = length cs"
  by (induction n) simp_all

lemma clearStock_nth:
  "i < length cs \<Longrightarrow>
   foldl (\<lambda>cs i. cs[i := (cs ! i)\<lparr>deltaBiasArray := []\<rparr>]) cs [0..<n] ! i
     = (if i < n then (cs ! i)\<lparr>deltaBiasArray := []\<rparr> else cs ! i)"
  by (induction n) (auto simp: clearStock_length nth_list_update less_Suc_eq)

lemma clearFeedforwardIncrements_eq:
  "clearFeedforwardIncrements s
   = s\<lparr>nominalControllersStock :=
        foldl (\<lambda>cs i. cs[i := (cs ! i)\<lparr>deltaBiasArray := []\<rparr>]) (nominalControllersStock s)
          [0..<numPartitions s]\<rparr>"
  unfolding clearFeedforwardIncrements_def by (rule clearFeedforwardIncrements_fold)

lemma clearFeedforwardIncrements_members [simp]:
  "learningRateStar (clearFeedforwardIncrements s) = learningRateStar s"
  "nominalTotalCost (clearFeedforwardIncrements s) = nominalTotalCost s"
  "baselineTotalCost (clearFeedforwardIncrements s) = baselineTotalCost s"
  "maxLearningRateMember (clearFeedforwardIncrements s) = maxLearningRateMember s"
  "numPartitions (clearFeedforwardIncrements s) = numPartitions s"
  "initLScontrollersStock (clearFeedforwardIncrements s) = initLScontrollersStock s"
  "nominalTrajectoriesStock (clearFeedforwardIncrements s) = nominalTrajectoriesStock s"
  "rolloutCalls (clearFeedforwardIncrements s) = rolloutCalls s"
  "killIntegration (clearFeedforwardIncrements s) = killIntegration s"
  "length (nominalControllersStock (clearFeedforwardIncrements s)) = length (nominalControllersStock s)"
  by (simp_all add: clearFeedforwardIncrements_eq clearStock_length)

lemma clearFeedforwardIncrements_cleared:
  assumes "length (nominalControllersStock s) \<le> numPartitions s"
    and "c \<in> set (nominalControllersStock (clearFeedforwardIncrements s))"
  shows "deltaBiasArray c = []"
proof -
  from assms(2) obtain i where i: "i < length (nominalControllersStock s)"
    and c: "c = nominalControllersStock (clearFeedforwardIncrements s) ! i"
    by (auto simp: in_set_conv_nth)
  from i assms(1) have "i < numPartitions s" by simp
  with i c show ?thesis by (simp add: clearFeedforwardIncrements_eq clearStock_nth)
qed

lemma clearFeedforwardIncrements_rest:
  assumes "i < length (nominalControllersStock s)"
  shows "timeStamp (nominalControllersStock (clearFeedforwardIncrements s) ! i)
           = timeStamp (nominalControllersStock s ! i)
         \<and> gainArray (nominalControllersStock (clearFeedforwardIncrements s) ! i)
           = gainArray (nominalControllersStock s ! i)
         \<and> biasArray (nominalControllersStock (clearFeedforwardIncrements s) ! i)
           = biasArray (nominalControllersStock s ! i)"
  using assms by (simp add: clearFeedforwardIncrements_eq clearStock_nth)

subsection \<open>The members after the baseline rollout\<close>

lemma baselineRollout_members:
  assumes "baselineRollout ev st iter s = Inr sb"
  shows "nominalControllersStock sb = nominalControllersStock s"
    and "killIntegration sb = killIntegration s"
    and "maxLearningRateMember sb = maxLearningRateMember s"
    and "numPartitions sb = numPartitions s"
    and "rolloutCalls sb = rolloutCalls s + 1"
  using assms
  by (auto simp: baselineRollout_def Let_def split: sum.splits prod.splits)

lemma lineSearch_baseline_cases:
  "(\<exists>e. baselineRollout ev st iter s = Inl e \<and> lineSearch_baseline ev st iter s = Inl e)
   \<or> (\<exists>sb. baselineRollout ev st iter s = Inr sb
         \<and> lineSearch_baseline ev st iter s
            = Inr (sb\<lparr>baselineTotalCost := nominalTotalCost sb, learningRateStar := 0,
                      initLScontrollersStock := nominalControllersStock sb\<rparr>))"
  by (cases "baselineRollout ev st iter s") (simp_all add: lineSearch_baseline_def)

subsection \<open>The invariant when the tasks start and when they have returned\<close>

lemma ls_params_ok_fork:
  assumes "lineSearch_settings_ok st" "maxLearningRateMember s = maxLearningRate st"
  shows "ls_params_ok st (fst (lineSearch_fork st l0 s))"
  using assms candidate_fits[OF assms(1)]
  by (auto simp: ls_params_ok_def lineSearch_fork_def candidateRate_def lineSearch_settings_ok_def)

lemma ls_inv_fork:
  assumes "learningRateStar s = 0" "\<not> killIntegration s"
    and "length (nominalControllersStock s) = length (initLScontrollersStock s)"
  shows "ls_inv ev st iter (fst (lineSearch_fork st l0 s)) (lineSearch_fork st l0 s)"
  using assms
  by (auto simp: ls_inv_def lineSearch_fork_def ls_frame_def ls_star_def task_inv_def processed_def)

lemma ls_inv_returned:
  assumes inv: "ls_inv ev st iter s0 (s, ts)"
    and ret: "list_all (\<lambda>t. place t = TaskReturned) ts" and ne: "ts \<noteq> []"
  shows "\<forall>j. passes ev st iter s0 j \<longrightarrow> candidateRate st s0 j \<le> learningRateStar s"
proof (intro allI impI)
  fix j assume p: "passes ev st iter s0 j"
  from ret have places: "\<And>k. k < length ts \<Longrightarrow> place (ts ! k) = TaskReturned"
    by (simp add: list_all_length)
  have "disposed st s0 s j"
  proof (cases "j < alphaExpNext s")
    case True
    with ls_invD(7)[OF inv] have "disposed st s0 s j \<or> (\<exists>k<length ts. held (place (ts ! k)) = Some j)"
      by blast
    with places show ?thesis by auto
  next
    case False
    from ne have "0 < length ts" by simp
    then have "task_inv ev st iter s0 s (ts ! 0)" "place (ts ! 0) = TaskReturned"
      using ls_invD(3)[OF inv] places by blast+
    then have "\<forall>j\<ge>alphaExpNext s. disposed st s0 s j"
      by (simp add: task_inv_def)
    with False show ?thesis by simp
  qed
  with p ls_invD(6)[OF inv] show "candidateRate st s0 j \<le> learningRateStar s"
    by (auto simp: disposed_def passes_def)
qed


lemma maxNumOfLineSearches_demo: "maxNumOfLineSearches demoSettings = 3"
proof -
  have "ln (1 / 4 :: real) = ln ((1 / 2) ^ 2)" by (simp add: power2_eq_square)
  also have "\<dots> = 2 * ln (1 / 2 :: real)" by (simp add: ln_realpow)
  finally have "ln (1 / 4 :: real) / ln (1 / 2) = 2" by simp
  then show ?thesis by (simp add: maxNumOfLineSearches_def demoSettings_def)
qed

subsection \<open>The sizes of the controller stocks\<close>

lemma lineSearchTask_step_sized:
  assumes "numPartitions s = n" "length (nominalControllersStock s) = n"
    and "length (initLScontrollersStock s) = n"
    and "case place t of AtLock j a \<Rightarrow> length (l_controllersStock (locals t)) = n | _ \<Rightarrow> True"
    and "lineSearchTask_step ev st iter intr (s, t) = (s', t')"
  shows "numPartitions s' = n \<and> length (nominalControllersStock s') = n
         \<and> length (initLScontrollersStock s') = n
         \<and> (case place t' of AtLock j a \<Rightarrow> length (l_controllersStock (locals t')) = n | _ \<Rightarrow> True)"
proof (cases "place t")
  case (AtWorker j a)
  with assms show ?thesis
    by (auto simp: lineSearchTask_step_def Let_def lineSearchWorker_controllers
        lineSearchWorker_killed_locals split: option.splits)
next
  case (AtLock j a)
  with assms show ?thesis
    by (auto simp: lineSearchTask_step_def Let_def split: if_splits)
qed (use assms in \<open>auto simp: lineSearchTask_step_def Let_def split: if_splits\<close>)

lemma lineSearch_event_sized:
  assumes "ls_sized n cfg"
  shows "ls_sized n (lineSearch_event ev st iter cfg e)"
proof -
  obtain s ts where cfg: "cfg = (s, ts)" by (cases cfg)
  show ?thesis
  proof (cases "event_task e < length ts")
    case False
    with assms cfg show ?thesis by (simp add: lineSearch_event_def)
  next
    case True
    obtain s' t' where step: "lineSearchTask_step ev st iter (event_intr e) (s, ts ! event_task e) = (s', t')"
      by (cases "lineSearchTask_step ev st iter (event_intr e) (s, ts ! event_task e)")
    from assms cfg True
    have pre: "numPartitions s = n" "length (nominalControllersStock s) = n"
      "length (initLScontrollersStock s) = n"
      "case place (ts ! event_task e) of
         AtLock j a \<Rightarrow> length (l_controllersStock (locals (ts ! event_task e))) = n | _ \<Rightarrow> True"
      and all: "list_all (\<lambda>t. case place t of
                   AtLock j a \<Rightarrow> length (l_controllersStock (locals t)) = n | _ \<Rightarrow> True) ts"
      by (simp_all add: ls_sized_def list_all_length)
    from lineSearchTask_step_sized[OF pre step] all
    have "ls_sized n (s', ts[event_task e := t'])"
      unfolding ls_sized_def prod.case by (simp add: list_all_update)
    with cfg True step show ?thesis by (simp add: lineSearch_event_def)
  qed
qed

lemma runParallel_sized:
  "ls_sized n cfg \<Longrightarrow> ls_sized n (runParallel ev st iter events cfg)"
  unfolding runParallel_def
  by (induction events arbitrary: cfg) (simp_all add: lineSearch_event_sized)

lemma lineSearch_fork_sized:
  assumes "numPartitions s = n" "length (nominalControllersStock s) = n"
    "length (initLScontrollersStock s) = n"
  shows "ls_sized n (lineSearch_fork st l0 s)"
  using assms by (simp add: ls_sized_def lineSearch_fork_def list_all_length)

lemma lineSearch_sized:
  assumes ret: "lineSearch ev st eps iter l0 events s = Some (Inr s')"
    and len: "length (nominalControllersStock s) = numPartitions s"
  shows "numPartitions s' = numPartitions s"
    and "length (nominalControllersStock s') = numPartitions s"
    and "c \<in> set (nominalControllersStock s') \<Longrightarrow> deltaBiasArray c = []"
proof -
  from lineSearch_baseline_cases[of ev st iter s] ret
  obtain sb where sb: "baselineRollout ev st iter s = Inr sb"
    and base: "lineSearch_baseline ev st iter s
       = Inr (sb\<lparr>baselineTotalCost := nominalTotalCost sb, learningRateStar := 0,
                 initLScontrollersStock := nominalControllersStock sb\<rparr>)" (is "_ = Inr ?s1")
    by (auto simp: lineSearch_def)
  note mem = baselineRollout_members[OF sb]
  have s1: "numPartitions ?s1 = numPartitions s" "length (nominalControllersStock ?s1) = numPartitions s"
    "length (initLScontrollersStock ?s1) = numPartitions s"
    using mem len by simp_all
  have "\<exists>sf. s' = clearFeedforwardIncrements sf \<and> numPartitions sf = numPartitions s
          \<and> length (nominalControllersStock sf) = numPartitions s"
  proof (cases "maxLearningRate st < eps")
    case True
    with ret base s1 show ?thesis by (auto simp: lineSearch_def)
  next
    case False
    obtain sf ts where run: "runParallel ev st iter events (lineSearch_fork st l0 ?s1) = (sf, ts)"
      by (cases "runParallel ev st iter events (lineSearch_fork st l0 ?s1)")
    from runParallel_sized[OF lineSearch_fork_sized[OF s1, of st l0], of ev st iter events] run
    have "numPartitions sf = numPartitions s" "length (nominalControllersStock sf) = numPartitions s"
      by (simp_all add: ls_sized_def)
    with ret base False run show ?thesis
      by (auto simp: lineSearch_def split: if_splits)
  qed
  then obtain sf where sf: "s' = clearFeedforwardIncrements sf" "numPartitions sf = numPartitions s"
    "length (nominalControllersStock sf) = numPartitions s" by blast
  then show "numPartitions s' = numPartitions s" "length (nominalControllersStock s') = numPartitions s"
    by simp_all
  show "deltaBiasArray c = []" if "c \<in> set (nominalControllersStock s')"
    using clearFeedforwardIncrements_cleared[of sf c] sf that by simp
qed


subsection \<open>The result of the line search\<close>

lemma passes_frame:
  assumes "baselineTotalCost a = baselineTotalCost b"
    and "initLScontrollersStock a = initLScontrollersStock b"
    and "maxLearningRateMember a = maxLearningRateMember b"
    and "numPartitions a = numPartitions b"
  shows "candidateRate st a = candidateRate st b"
    and "candidateMerit ev st iter a = candidateMerit ev st iter b"
    and "passes ev st iter a = passes ev st iter b"
  using assms
  by (simp_all add: fun_eq_iff candidateRate_def candidateMerit_def passes_def descends_def)

lemma ls_params_ok_frame:
  assumes "ls_params_ok st a" "maxLearningRateMember b = maxLearningRateMember a"
    "length (alphaProcessed b) = length (alphaProcessed a)"
  shows "ls_params_ok st b"
  using assms by (simp add: ls_params_ok_def candidateRate_def)

lemma length_lineSearch_event:
  "length (snd (lineSearch_event ev st iter cfg e)) = length (snd cfg)"
  by (cases cfg) (simp add: lineSearch_event_def split: prod.splits)

lemma length_runParallel:
  "length (snd (runParallel ev st iter events cfg)) = length (snd cfg)"
  unfolding runParallel_def
  by (induction events arbitrary: cfg) (simp_all add: length_lineSearch_event)

lemma lineSearch_searched:
  assumes ok: "lineSearch_settings_ok st"
    and mlr: "maxLearningRateMember s = maxLearningRate st"
    and nk: "\<not> killIntegration s"
    and ne: "\<not> maxLearningRate st < eps"
    and ret: "lineSearch ev st eps iter l0 events s = Some (Inr s')"
  shows "\<exists>sb. baselineRollout ev st iter s = Inr sb
          \<and> baselineTotalCost s' = nominalTotalCost sb
          \<and> maxLearningRateMember s' = maxLearningRate st
          \<and> initLScontrollersStock s' = nominalControllersStock s
          \<and> numPartitions s' = numPartitions s
          \<and> \<not> killIntegration s'
          \<and> ls_params_ok st s'
          \<and> (\<forall>j. passes ev st iter s' j \<longrightarrow> candidateRate st s' j \<le> learningRateStar s')
          \<and> (learningRateStar s' = 0 \<and> nominalTotalCost s' = nominalTotalCost sb
                \<and> nominalTrajectoriesStock s' = nominalTrajectoriesStock sb
              \<or> 0 < learningRateStar s'
                \<and> (\<exists>j. learningRateStar s' = candidateRate st s' j \<and> passes ev st iter s' j
                       \<and> nominalTotalCost s' = candidateMerit ev st iter s' (candidateRate st s' j)))"
proof -
  from lineSearch_baseline_cases[of ev st iter s] ret
  obtain sb where sb: "baselineRollout ev st iter s = Inr sb"
    and base: "lineSearch_baseline ev st iter s
       = Inr (sb\<lparr>baselineTotalCost := nominalTotalCost sb, learningRateStar := 0,
                 initLScontrollersStock := nominalControllersStock sb\<rparr>)" (is "_ = Inr ?s1")
    by (auto simp: lineSearch_def)
  note mem = baselineRollout_members[OF sb]
  define s0 where "s0 = fst (lineSearch_fork st l0 ?s1)"
  have s0: "baselineTotalCost s0 = nominalTotalCost sb" "maxLearningRateMember s0 = maxLearningRate st"
    "initLScontrollersStock s0 = nominalControllersStock s" "numPartitions s0 = numPartitions s"
    "nominalTotalCost s0 = nominalTotalCost sb"
    "nominalTrajectoriesStock s0 = nominalTrajectoriesStock sb"
    using mem mlr by (simp_all add: s0_def lineSearch_fork_def)
  have par: "ls_params_ok st s0"
    unfolding s0_def using ok mem mlr by (intro ls_params_ok_fork) simp_all
  have inv0: "ls_inv ev st iter s0 (lineSearch_fork st l0 ?s1)"
    unfolding s0_def using mem nk by (intro ls_inv_fork) simp_all
  obtain sf ts where run: "runParallel ev st iter events (lineSearch_fork st l0 ?s1) = (sf, ts)"
    by (cases "runParallel ev st iter events (lineSearch_fork st l0 ?s1)")
  from ls_inv_runParallel[OF par inv0, of events] run
  have inv: "ls_inv ev st iter s0 (sf, ts)" by simp
  from ret base ne run have returned: "list_all (\<lambda>t. place t = TaskReturned) ts"
    and s': "s' = clearFeedforwardIncrements (sf\<lparr>killIntegration := False\<rparr>)"
    by (auto simp: lineSearch_def split: if_splits)
  from length_runParallel[of ev st iter events "lineSearch_fork st l0 ?s1"] run ok
  have "ts \<noteq> []" by (auto simp: lineSearch_fork_def lineSearch_settings_ok_def)
  note largest = ls_inv_returned[OF inv returned this]
  from ls_invD(1)[OF inv] have frame: "ls_frame s0 sf" .
  then have fr: "baselineTotalCost s' = baselineTotalCost s0"
    "initLScontrollersStock s' = initLScontrollersStock s0"
    "maxLearningRateMember s' = maxLearningRateMember s0"
    "numPartitions s' = numPartitions s0"
    "length (alphaProcessed sf) = length (alphaProcessed s0)"
    by (simp_all add: ls_frame_def s')
  note pf = passes_frame[OF fr(1-4)]
  have ap: "alphaProcessed s' = alphaProcessed sf"
    by (simp add: s' clearFeedforwardIncrements_eq)
  have par': "ls_params_ok st s'"
    using par fr ap by - (rule ls_params_ok_frame[of st s0], simp_all)
  have star: "learningRateStar s' = learningRateStar sf" "nominalTotalCost s' = nominalTotalCost sf"
    "nominalTrajectoriesStock s' = nominalTrajectoriesStock sf"
    by (simp_all add: s')
  from ls_invD(2)[OF inv] have "ls_star ev st iter s0 sf" .
  then have st': "learningRateStar s' = 0 \<and> nominalTotalCost s' = nominalTotalCost sb
                \<and> nominalTrajectoriesStock s' = nominalTrajectoriesStock sb
              \<or> 0 < learningRateStar s'
                \<and> (\<exists>j. learningRateStar s' = candidateRate st s' j \<and> passes ev st iter s' j
                       \<and> nominalTotalCost s' = candidateMerit ev st iter s' (candidateRate st s' j))"
  proof (unfold ls_star_def, elim disjE conjE exE)
    assume "learningRateStar sf = 0" "nominalTotalCost sf = nominalTotalCost s0"
      "nominalTrajectoriesStock sf = nominalTrajectoriesStock s0"
    then show ?thesis by (simp add: star s0)
  next
    fix j assume "0 < learningRateStar sf" "learningRateStar sf = candidateRate st s0 j"
      "passes ev st iter s0 j"
      "nominalTotalCost sf = candidateMerit ev st iter s0 (candidateRate st s0 j)"
    then have "0 < learningRateStar s' \<and> learningRateStar s' = candidateRate st s' j
        \<and> passes ev st iter s' j
        \<and> nominalTotalCost s' = candidateMerit ev st iter s' (candidateRate st s' j)"
      by (simp add: star pf)
    then show ?thesis by blast
  qed
  have nk': "\<not> killIntegration s'" by (simp add: s')
  from largest have lg: "\<forall>j. passes ev st iter s' j \<longrightarrow> candidateRate st s' j \<le> learningRateStar s'"
    by (simp add: pf star)
  have "baselineRollout ev st iter s = Inr sb
          \<and> baselineTotalCost s' = nominalTotalCost sb
          \<and> maxLearningRateMember s' = maxLearningRate st
          \<and> initLScontrollersStock s' = nominalControllersStock s
          \<and> numPartitions s' = numPartitions s
          \<and> \<not> killIntegration s'
          \<and> ls_params_ok st s'"
    using sb nk' par' by (simp add: fr s0)
  with lg st' show ?thesis by blast
qed

lemma lineSearch_early:
  assumes "maxLearningRate st < eps"
  shows "(\<exists>e. baselineRollout ev st iter s = Inl e
            \<and> lineSearch ev st eps iter l0 events s = Some (Inl e))
         \<or> (\<exists>sb s'. baselineRollout ev st iter s = Inr sb
              \<and> lineSearch ev st eps iter l0 events s = Some (Inr s')
              \<and> learningRateStar s' = 0
              \<and> rolloutCalls s' = rolloutCalls s + 1
              \<and> baselineTotalCost s' = nominalTotalCost sb
              \<and> nominalTotalCost s' = nominalTotalCost sb
              \<and> nominalTrajectoriesStock s' = nominalTrajectoriesStock sb)"
proof -
  from lineSearch_baseline_cases[of ev st iter s] show ?thesis
  proof (elim disjE exE conjE)
    fix e assume "baselineRollout ev st iter s = Inl e" "lineSearch_baseline ev st iter s = Inl e"
    then show ?thesis by (simp add: lineSearch_def)
  next
    fix sb assume sb: "baselineRollout ev st iter s = Inr sb"
      and base: "lineSearch_baseline ev st iter s
       = Inr (sb\<lparr>baselineTotalCost := nominalTotalCost sb, learningRateStar := 0,
                 initLScontrollersStock := nominalControllersStock sb\<rparr>)"
    from baselineRollout_members[OF sb] sb base assms show ?thesis
      by (simp add: lineSearch_def)
  qed
qed


subsection \<open>Every task returns\<close>

lemma lineSearchTask_step_progress:
  assumes fits: "ls_fits st n s"
    and step: "lineSearchTask_step ev st iter intr (s, t) = (s', t')"
  shows "task_potential n s' t' \<le> task_potential n s t - 1"
    and "alphaExpNext s \<le> alphaExpNext s'"
    and "maxLearningRateMember s' = maxLearningRateMember s"
proof -
  show "alphaExpNext s \<le> alphaExpNext s'" "maxLearningRateMember s' = maxLearningRateMember s"
    using step
    by (cases "place t"; auto simp: lineSearchTask_step_def Let_def split: if_splits)+
  show "task_potential n s' t' \<le> task_potential n s t - 1"
  proof (cases "place t")
    case AtLoopHead
    show ?thesis
    proof (cases "minLearningRate st \<le> maxLearningRateMember s * lineSearchContractionRate st ^ alphaExpNext s")
      case True
      with fits have "alphaExpNext s < n" by (simp add: ls_fits_def)
      with True AtLoopHead step show ?thesis
        by (auto simp: lineSearchTask_step_def Let_def almost_ge_def task_potential_def min_def)
    next
      case False
      with AtLoopHead step show ?thesis
        by (auto simp: lineSearchTask_step_def Let_def almost_ge_def task_potential_def)
    qed
  qed (use step in \<open>auto simp: lineSearchTask_step_def Let_def task_potential_def split: if_splits\<close>)
qed

lemma task_potential_mono:
  assumes "alphaExpNext s \<le> alphaExpNext s'"
  shows "task_potential n s' t \<le> task_potential n s t"
proof -
  from assms have "n - min (alphaExpNext s') n \<le> n - min (alphaExpNext s) n" by arith
  then show ?thesis by (simp add: task_potential_def)
qed

lemma lineSearch_event_progress:
  assumes fits: "ls_fits st n (fst cfg)" and k: "k < length (snd cfg)"
  shows "task_potential n (fst (lineSearch_event ev st iter cfg e)) (snd (lineSearch_event ev st iter cfg e) ! k)
         \<le> task_potential n (fst cfg) (snd cfg ! k) - (if event_task e = k then 1 else 0)"
    and "ls_fits st n (fst (lineSearch_event ev st iter cfg e))"
proof -
  obtain s ts where cfg: "cfg = (s, ts)" by (cases cfg)
  show "task_potential n (fst (lineSearch_event ev st iter cfg e)) (snd (lineSearch_event ev st iter cfg e) ! k)
         \<le> task_potential n (fst cfg) (snd cfg ! k) - (if event_task e = k then 1 else 0)"
  proof (cases "event_task e < length ts")
    case False
    with cfg k show ?thesis by (auto simp: lineSearch_event_def)
  next
    case True
    obtain s' t' where step: "lineSearchTask_step ev st iter (event_intr e) (s, ts ! event_task e) = (s', t')"
      by (cases "lineSearchTask_step ev st iter (event_intr e) (s, ts ! event_task e)")
    from fits cfg have f: "ls_fits st n s" by simp
    note pr = lineSearchTask_step_progress[OF f step]
    have ev: "lineSearch_event ev st iter cfg e = (s', ts[event_task e := t'])"
      using cfg True step by (simp add: lineSearch_event_def)
    show ?thesis
    proof (cases "event_task e = k")
      case True
      with pr(1) ev cfg k show ?thesis by simp
    next
      case False
      with task_potential_mono[OF pr(2), of n "ts ! k"] ev cfg k show ?thesis by simp
    qed
  qed
  show "ls_fits st n (fst (lineSearch_event ev st iter cfg e))"
  proof (cases "event_task e < length ts")
    case False
    with cfg fits show ?thesis by (simp add: lineSearch_event_def)
  next
    case True
    obtain s' t' where step: "lineSearchTask_step ev st iter (event_intr e) (s, ts ! event_task e) = (s', t')"
      by (cases "lineSearchTask_step ev st iter (event_intr e) (s, ts ! event_task e)")
    from fits cfg have f: "ls_fits st n s" by simp
    from lineSearchTask_step_progress(3)[OF f step] f cfg True step show ?thesis
      by (simp add: lineSearch_event_def ls_fits_def)
  qed
qed

lemma runParallel_progress:
  assumes "ls_fits st n (fst cfg)" "k < length (snd cfg)"
  shows "task_potential n (fst (runParallel ev st iter events cfg)) (snd (runParallel ev st iter events cfg) ! k)
         \<le> task_potential n (fst cfg) (snd cfg ! k) - steps_of k events"
  using assms
proof (induction events arbitrary: cfg)
  case Nil
  then show ?case by (simp add: runParallel_def steps_of_def)
next
  case (Cons e es)
  let ?c = "lineSearch_event ev st iter cfg e"
  note ep = lineSearch_event_progress[OF Cons.prems, of ev iter e]
  have k': "k < length (snd ?c)" using Cons.prems(2) by (simp add: length_lineSearch_event)
  have r: "runParallel ev st iter (e # es) cfg = runParallel ev st iter es ?c"
    by (simp add: runParallel_def)
  have c: "steps_of k (e # es) = (if event_task e = k then 1 else 0) + steps_of k es"
    by (simp add: steps_of_def)
  define p0 where "p0 = task_potential n (fst cfg) (snd cfg ! k)"
  define p1 where "p1 = task_potential n (fst ?c) (snd ?c ! k)"
  define p2 where "p2 = task_potential n (fst (runParallel ev st iter es ?c))
                          (snd (runParallel ev st iter es ?c) ! k)"
  define d :: nat where "d = (if event_task e = k then 1 else 0)"
  from Cons.IH[OF ep(2) k'] have "p2 \<le> p1 - steps_of k es" by (simp add: p1_def p2_def)
  moreover from ep(1) have "p1 \<le> p0 - d" by (simp add: p0_def p1_def d_def)
  ultimately have "p2 \<le> p0 - (d + steps_of k es)" by arith
  then show ?case unfolding r c p0_def p2_def d_def .
qed

lemma task_potential_zero:
  "task_potential n s t = 0 \<Longrightarrow> place t = TaskReturned"
  by (cases "place t") (simp_all add: task_potential_def)

lemma runParallel_returns:
  assumes ok: "lineSearch_settings_ok st"
    and mlr: "maxLearningRateMember s = maxLearningRate st"
    and fair: "ls_fair st events"
  shows "list_all (\<lambda>t. place t = TaskReturned)
           (snd (runParallel ev st iter events (lineSearch_fork st l0 s)))"
proof -
  let ?n = "maxNumOfLineSearches st" and ?cfg = "lineSearch_fork st l0 s"
  let ?end = "runParallel ev st iter events ?cfg"
  have fits: "ls_fits st ?n (fst ?cfg)"
    using candidate_fits[OF ok] mlr by (simp add: ls_fits_def lineSearch_fork_def)
  have len: "length (snd ?end) = nThreads st"
    by (simp add: length_runParallel lineSearch_fork_def)
  have "place (snd ?end ! k) = TaskReturned" if k: "k < nThreads st" for k
  proof -
    from k have k': "k < length (snd ?cfg)" by (simp add: lineSearch_fork_def)
    from fair k have "4 * ?n + 1 \<le> steps_of k events" by (simp add: ls_fair_def list_all_iff)
    moreover have "task_potential ?n (fst ?cfg) (snd ?cfg ! k) = 4 * ?n + 1"
      using k by (simp add: task_potential_def lineSearch_fork_def)
    ultimately have "task_potential ?n (fst ?end) (snd ?end ! k) = 0"
      using runParallel_progress[OF fits k', of ev iter events] by simp
    then show ?thesis by (rule task_potential_zero)
  qed
  with len show ?thesis by (simp add: list_all_length)
qed

lemma lineSearch_completes:
  assumes "lineSearch_settings_ok st" "maxLearningRateMember s = maxLearningRate st"
    and "ls_fair st events"
  shows "\<exists>r. lineSearch ev st eps iter l0 events s = Some r"
proof (cases "lineSearch_baseline ev st iter s")
  case (Inl e)
  then show ?thesis by (simp add: lineSearch_def)
next
  case (Inr s1)
  from lineSearch_baseline_cases[of ev st iter s] Inr baselineRollout_members(3)
  have "maxLearningRateMember s1 = maxLearningRateMember s" by auto
  with assms(2) have "maxLearningRateMember s1 = maxLearningRate st" by simp
  from runParallel_returns[OF assms(1) this assms(3), of ev iter l0] Inr show ?thesis
    by (auto simp: lineSearch_def split: prod.splits)
qed


subsection \<open>Runs on the small problem\<close>

lemmas demo_run_defs =
  runIteration_lineSearch_def lineSearch_def lineSearch_baseline_def baselineRollout_def
  lineSearch_fork_def runParallel_def lineSearch_event_def
  lineSearchTask_step_def lineSearch_accepts_def lineSearchWorker_def incrementBiasStock_def
  incrementBias_def vector_axpy_def calculateRolloutMerit_def Let_def
  demoEvaluator_def demoSettings_def demoMembers_def demoController_def demoTrajectory_def
  demoLocals_def demoRollout_def demoCost_def demoISE_def almost_ge_def demoEpsilon_def
  demoInterleaved_def demoSequential_def
  clearFeedforwardIncrements_def controller_clear_def trajectory_clear_def
  eval_nat_numeral

lemma scalar_max_large: "1024 \<le> scalar_max"
proof -
  have "(2 :: real) ^ 10 \<le> 2 ^ 1023" by (rule power_increasing) simp_all
  then have "(1 :: real) * 2 ^ 10 \<le> (2 - 1 / 2 ^ 52) * 2 ^ 1023"
    by (intro mult_mono) simp_all
  then show ?thesis by (simp add: scalar_max_def)
qed

lemma demoSettings_ok: "lineSearch_settings_ok demoSettings"
  by (simp add: lineSearch_settings_ok_def demoSettings_def)

lemma demo_interleaved:
  "\<exists>s'. lineSearch demoEvaluator demoSettings demoEpsilon 1 demoLocals demoInterleaved
           (demoMembers [demoController 0 1] [demoTrajectory 0]) = Some (Inr s')
     \<and> learningRateStar s' = 1 \<and> nominalTotalCost s' = 7 \<and> baselineTotalCost s' = 10
     \<and> numPartitions s' = 1
     \<and> nominalControllersStock s'
         = [\<lparr>timeStamp = [0], gainArray = [[]], biasArray = [[1]], deltaBiasArray = []\<rparr>]"
  by (simp add: demo_run_defs maxNumOfLineSearches_demo)

lemma demo_early:
  "\<exists>s'. lineSearch demoEvaluator (demoSettings\<lparr>maxLearningRate := 0\<rparr>) demoEpsilon 1 demoLocals []
           (demoMembers [demoController 3 1] [demoTrajectory 0]) = Some (Inr s')
     \<and> learningRateStar s' = 0 \<and> rolloutCalls s' = 1
     \<and> nominalTrajectoriesStock s' = [demoTrajectory 3]"
  by (simp add: demo_run_defs)


lemma lowSettings_candidates: "maxNumOfLineSearches lowSettings = 1"
  by (simp add: maxNumOfLineSearches_def lowSettings_def demoSettings_def)

subsection \<open>The line search as a whole\<close>

text \<open>
  Claim C10. Whenever \<^verbatim>\<open>lineSearch\<close> returns, by the early path or after the parallel
  section and whatever the tasks have committed, the nominal stock holds one controller
  for each partition and the array \<open>deltaBiasArray_\<close> of each of them is empty. The stock
  has one controller for each partition when the function is entered.
\<close>

theorem lineSearch_clears_increments:
  assumes "lineSearch ev st eps iter l0 events s = Some (Inr s')"
    and "length (nominalControllersStock s) = numPartitions s"
  shows "length (nominalControllersStock s') = numPartitions s'
         \<and> (\<forall>c\<in>set (nominalControllersStock s'). deltaBiasArray c = [])"
  using lineSearch_sized[OF assms] by simp

theorem lineSearch_clears_increments_witness:
  "\<exists>s'. lineSearch demoEvaluator demoSettings demoEpsilon 1 demoLocals demoInterleaved
           (demoMembers [demoController 0 1] [demoTrajectory 0]) = Some (Inr s')
     \<and> length (nominalControllersStock s') = numPartitions s'
     \<and> list_all (\<lambda>c. deltaBiasArray c = []) (nominalControllersStock s')"
proof -
  from demo_interleaved obtain s' where
    run: "lineSearch demoEvaluator demoSettings demoEpsilon 1 demoLocals demoInterleaved
           (demoMembers [demoController 0 1] [demoTrajectory 0]) = Some (Inr s')"
    by blast
  have "length (nominalControllersStock (demoMembers [demoController 0 1] [demoTrajectory 0]))
        = numPartitions (demoMembers [demoController 0 1] [demoTrajectory 0])"
    by (simp add: demoMembers_def)
  from lineSearch_clears_increments[OF run this] run show ?thesis
    by (auto simp: list_all_iff)
qed

text \<open>
  Claim C6, as the code has it. When the maximum learning rate is below \<open>\<epsilon>\<close>,
  \<^verbatim>\<open>lineSearch\<close> first performs the baseline rollout. If that rollout throws, so does
  \<^verbatim>\<open>lineSearch\<close>. Otherwise it returns with \<open>\<alpha>\<^sup>* = 0\<close>, the increments of every
  controller cleared, the results of the baseline rollout as the nominal ones, and one
  rollout performed: no candidate is rolled out.
\<close>

theorem lineSearch_without_search:
  assumes "maxLearningRate st < eps"
    and "length (nominalControllersStock s) = numPartitions s"
  shows "(\<exists>e. baselineRollout ev st iter s = Inl e
            \<and> lineSearch ev st eps iter l0 events s = Some (Inl e))
         \<or> (\<exists>sb s'. baselineRollout ev st iter s = Inr sb
              \<and> lineSearch ev st eps iter l0 events s = Some (Inr s')
              \<and> learningRateStar s' = 0
              \<and> (\<forall>c\<in>set (nominalControllersStock s'). deltaBiasArray c = [])
              \<and> rolloutCalls s' = rolloutCalls s + 1
              \<and> nominalTotalCost s' = nominalTotalCost sb
              \<and> nominalTrajectoriesStock s' = nominalTrajectoriesStock sb)"
  using lineSearch_early[OF assms(1), of ev iter s l0 events] lineSearch_sized(3)[OF _ assms(2)]
  by (elim disjE exE conjE) blast+

theorem lineSearch_without_search_witness:
  "maxLearningRate (demoSettings\<lparr>maxLearningRate := 0\<rparr>) < demoEpsilon
   \<and> (\<exists>s'. lineSearch demoEvaluator (demoSettings\<lparr>maxLearningRate := 0\<rparr>) demoEpsilon 1 demoLocals []
             (demoMembers [demoController 3 1] [demoTrajectory 0]) = Some (Inr s')
        \<and> learningRateStar s' = 0
        \<and> list_all (\<lambda>c. deltaBiasArray c = []) (nominalControllersStock s')
        \<and> rolloutCalls s' = 1)"
proof -
  have small: "maxLearningRate (demoSettings\<lparr>maxLearningRate := 0\<rparr>) < demoEpsilon"
    by (simp add: demoEpsilon_def)
  have len: "length (nominalControllersStock (demoMembers [demoController 3 1] [demoTrajectory 0]))
        = numPartitions (demoMembers [demoController 3 1] [demoTrajectory 0])"
    by (simp add: demoMembers_def)
  have calls: "rolloutCalls (demoMembers [demoController 3 1] [demoTrajectory 0]) = 0"
    by (simp add: demoMembers_def)
  have base: "baselineRollout demoEvaluator (demoSettings\<lparr>maxLearningRate := 0\<rparr>) 1
                (demoMembers [demoController 3 1] [demoTrajectory 0]) \<noteq> Inl e" for e
    by (simp add: baselineRollout_def demoEvaluator_def demoRollout_def demoController_def
        demoMembers_def Let_def)
  from lineSearch_without_search[OF small len, of demoEvaluator 1 demoLocals "[]"] base calls small
  show ?thesis by (auto simp: list_all_iff)
qed

text \<open>
  The claim as the spec states it fails: with a maximum learning rate of 0 the early path
  is taken, and the function has performed a rollout, which has replaced the nominal
  trajectories.
\<close>

theorem lineSearch_early_path_rolls_out:
  "maxLearningRate (demoSettings\<lparr>maxLearningRate := 0\<rparr>) < demoEpsilon
   \<and> nominalTrajectoriesStock (demoMembers [demoController 3 1] [demoTrajectory 0]) = [demoTrajectory 0]
   \<and> rolloutCalls (demoMembers [demoController 3 1] [demoTrajectory 0]) = 0
   \<and> (\<exists>s'. lineSearch demoEvaluator (demoSettings\<lparr>maxLearningRate := 0\<rparr>) demoEpsilon 1 demoLocals []
             (demoMembers [demoController 3 1] [demoTrajectory 0]) = Some (Inr s')
        \<and> rolloutCalls s' = 1
        \<and> nominalTrajectoriesStock s' = [demoTrajectory 3])"
  using demo_early by (simp add: demoEpsilon_def demoMembers_def) blast


lemma candidateRate_le_max:
  assumes "ls_params_ok st s'"
  shows "candidateRate st s' j \<le> maxLearningRateMember s'"
  using candidateRate_antimono[OF assms, of 0 j] by (simp add: candidateRate_def)

text \<open>
  Claim C1, as the code has it. For the line search of an outer iteration, under every
  execution of the parallel section: the committed step \<open>\<alpha>\<^sup>*\<close> lies in
  \<open>[0, maxLearningRate]\<close>; when \<open>\<alpha>\<^sup>* > 0\<close> the new merit is below
  \<open>M\<^sub>0 (1 - 10\<^sup>-\<^sup>3 \<alpha>\<^sup>*)\<close>, where \<open>M\<^sub>0\<close> is the merit of the baseline rollout of this
  iteration, not the merit of the previous iteration; and when the search runs, every
  candidate \<open>\<alpha>\<^sub>m\<^sub>a\<^sub>x r\<^sup>j\<close> of the candidate set that satisfies the descent condition is at most
  \<open>\<alpha>\<^sup>*\<close>, and a positive \<open>\<alpha>\<^sup>*\<close> is such a candidate, committed with its merit.
\<close>

theorem lineSearch_commits_largest_descent:
  assumes ok: "lineSearch_settings_ok st"
    and nk: "\<not> killIntegration s"
    and ret: "runIteration_lineSearch ev st eps iter l0 events s = Some (Inr s')"
  shows "0 \<le> learningRateStar s' \<and> learningRateStar s' \<le> maxLearningRate st
    \<and> (\<exists>sb. baselineRollout ev st iter (s\<lparr>maxLearningRateMember := maxLearningRate st\<rparr>) = Inr sb
           \<and> baselineTotalCost s' = nominalTotalCost sb)
    \<and> (0 < learningRateStar s' \<longrightarrow>
          nominalTotalCost s' < baselineTotalCost s' * (1 - 0.001 * learningRateStar s'))
    \<and> (\<not> maxLearningRate st < eps \<longrightarrow>
          maxLearningRateMember s' = maxLearningRate st
          \<and> initLScontrollersStock s' = nominalControllersStock s
          \<and> numPartitions s' = numPartitions s
          \<and> (\<forall>j. passes ev st iter s' j \<longrightarrow> candidateRate st s' j \<le> learningRateStar s')
          \<and> (0 < learningRateStar s' \<longrightarrow>
                (\<exists>j. learningRateStar s' = candidateRate st s' j \<and> passes ev st iter s' j
                     \<and> nominalTotalCost s' = candidateMerit ev st iter s' (candidateRate st s' j))))"
proof (cases "maxLearningRate st < eps")
  case True
  let ?s = "s\<lparr>maxLearningRateMember := maxLearningRate st\<rparr>"
  from ret have ret': "lineSearch ev st eps iter l0 events ?s = Some (Inr s')"
    by (simp add: runIteration_lineSearch_def)
  from lineSearch_early[OF True, of ev iter ?s l0 events] ret'
  obtain sb where "baselineRollout ev st iter ?s = Inr sb" "learningRateStar s' = 0"
    "baselineTotalCost s' = nominalTotalCost sb"
    by auto
  moreover from ok have "0 \<le> maxLearningRate st" by (simp add: lineSearch_settings_ok_def)
  ultimately show ?thesis using True by simp
next
  case False
  let ?s = "s\<lparr>maxLearningRateMember := maxLearningRate st\<rparr>"
  from ret have ret': "lineSearch ev st eps iter l0 events ?s = Some (Inr s')"
    by (simp add: runIteration_lineSearch_def)
  have "maxLearningRateMember ?s = maxLearningRate st" "\<not> killIntegration ?s"
    using nk by simp_all
  from lineSearch_searched[OF ok this False ret']
  obtain sb where sb: "baselineRollout ev st iter ?s = Inr sb"
    and b: "baselineTotalCost s' = nominalTotalCost sb"
    and fr: "maxLearningRateMember s' = maxLearningRate st"
      "initLScontrollersStock s' = nominalControllersStock s" "numPartitions s' = numPartitions s"
    and par: "ls_params_ok st s'"
    and largest: "\<forall>j. passes ev st iter s' j \<longrightarrow> candidateRate st s' j \<le> learningRateStar s'"
    and star: "learningRateStar s' = 0
              \<or> 0 < learningRateStar s'
                \<and> (\<exists>j. learningRateStar s' = candidateRate st s' j \<and> passes ev st iter s' j
                       \<and> nominalTotalCost s' = candidateMerit ev st iter s' (candidateRate st s' j))"
    by auto
  from ok have m: "0 \<le> maxLearningRate st" by (simp add: lineSearch_settings_ok_def)
  have range: "0 \<le> learningRateStar s' \<and> learningRateStar s' \<le> maxLearningRate st"
    using star m candidateRate_le_max[OF par] fr(1) by auto
  have chosen: "\<exists>j. learningRateStar s' = candidateRate st s' j \<and> passes ev st iter s' j
                     \<and> nominalTotalCost s' = candidateMerit ev st iter s' (candidateRate st s' j)"
    if "0 < learningRateStar s'"
    using star that by auto
  have descent: "nominalTotalCost s' < baselineTotalCost s' * (1 - 0.001 * learningRateStar s')"
    if "0 < learningRateStar s'"
    using chosen[OF that] by (auto simp: passes_def descends_def)
  from range sb b fr largest chosen descent show ?thesis by blast
qed

theorem lineSearch_commits_largest_descent_witness:
  "lineSearch_settings_ok demoSettings
   \<and> (\<exists>s'. runIteration_lineSearch demoEvaluator demoSettings demoEpsilon 1 demoLocals demoInterleaved
             (demoMembers [demoController 0 1] [demoTrajectory 0]) = Some (Inr s')
        \<and> learningRateStar s' = 1
        \<and> nominalTotalCost s' < baselineTotalCost s' * (1 - 0.001 * learningRateStar s')
        \<and> list_all (\<lambda>j. candidateRate demoSettings s' j \<le> learningRateStar s') [0, 1, 2])"
proof -
  let ?s = "demoMembers [demoController 0 1] [demoTrajectory 0]"
  have same: "?s\<lparr>maxLearningRateMember := maxLearningRate demoSettings\<rparr> = ?s"
    by (simp add: demoMembers_def demoSettings_def)
  from demo_interleaved obtain s' where
    run: "runIteration_lineSearch demoEvaluator demoSettings demoEpsilon 1 demoLocals demoInterleaved ?s
            = Some (Inr s')"
    and star: "learningRateStar s' = 1"
    unfolding runIteration_lineSearch_def same by blast
  have nk: "\<not> killIntegration ?s" by (simp add: demoMembers_def)
  have eps: "\<not> maxLearningRate demoSettings < demoEpsilon"
    by (simp add: demoSettings_def demoEpsilon_def)
  note res = lineSearch_commits_largest_descent[OF demoSettings_ok nk run]
  from res eps have rate: "maxLearningRateMember s' = 1"
    by (simp add: demoSettings_def)
  have "list_all (\<lambda>j. candidateRate demoSettings s' j \<le> learningRateStar s') [0, 1, 2]"
    by (simp add: candidateRate_def rate star demoSettings_def power2_eq_square)
  with res star run demoSettings_ok show ?thesis by auto
qed

text \<open>
  The claim as the spec states it fails. The line search of iteration 1 commits \<open>\<alpha>\<^sup>* = 1\<close>
  with the merit \<open>M\<^sub>1 = 7\<close>. The backward pass gives a new increment, and the line search of
  iteration 2 commits \<open>\<alpha>\<^sup>* = 1\<close> with the merit \<open>M\<^sub>2 = 51\<close>, below the baseline merit 52 of
  iteration 2 but above \<open>M\<^sub>1\<close>: the penalty coefficient of the merit has grown from 10 to 100.
\<close>

theorem lineSearch_merit_above_previous:
  "\<exists>s1 s2.
     runIteration_lineSearch demoEvaluator demoSettings demoEpsilon 1 demoLocals demoInterleaved
       (demoMembers [demoController 0 1] [demoTrajectory 0]) = Some (Inr s1)
     \<and> runIteration_lineSearch demoEvaluator demoSettings demoEpsilon 2 demoLocals demoInterleaved
         (s1\<lparr>nominalControllersStock := [demoController 1 1]\<rparr>) = Some (Inr s2)
     \<and> nominalTotalCost s1 = 7 \<and> nominalTotalCost s2 = 51 \<and> learningRateStar s2 = 1
     \<and> \<not> nominalTotalCost s2 < nominalTotalCost s1 * (1 - 0.001 * learningRateStar s2)"
  by (simp add: demo_run_defs maxNumOfLineSearches_demo)

lemma candidateMerit_thrown:
  assumes "evaluation_throws ev (incrementBiasStock (numPartitions s) a (initLScontrollersStock s))"
  shows "candidateMerit ev st iter s a = scalar_max"
  using assms
  by (auto simp: candidateMerit_def evaluation_throws_def split: sum.splits prod.splits)

lemma lineSearchWorker_thrown:
  assumes "evaluation_throws ev (incrementBiasStock n a (l_controllersStock l))"
  shows "l_totalCost (lineSearchWorker ev st iter n a l) = scalar_max"
  using assms
  by (auto simp: lineSearchWorker_def evaluation_throws_def Let_def split: sum.splits prod.splits)

lemma lineSearchTask_step_rejected:
  assumes "place t = AtLock k a" "l_totalCost (locals t) = scalar_max"
    and "baselineTotalCost sh * (1 - 0.001 * a) \<le> scalar_max"
  shows "lineSearchTask_step ev st iter intr (sh, t)
         = (sh\<lparr>alphaProcessed := (alphaProcessed sh)[k := True]\<rparr>, t\<lparr>place := AtLoopHead\<rparr>)"
  using assms by (simp add: lineSearchTask_step_def lineSearch_accepts_def)

lemma costly_baseline:
  "\<exists>sb. baselineRollout costlyEvaluator demoSettings 1
           (demoMembers [demoController 0 50] [demoTrajectory 0]) = Inr sb
     \<and> nominalTotalCost sb = 10"
  by (simp add: demo_run_defs costlyEvaluator_def)

text \<open>
  Claim C5, as the code has it. A candidate whose rollout, constraint evaluation or cost
  evaluation throws gets the largest finite scalar as its merit, not \<open>+\<infinity>\<close>. When the
  descent threshold \<open>M\<^sub>0 (1 - 10\<^sup>-\<^sup>3 \<alpha>)\<close> of the candidate does not exceed that scalar, the
  candidate is not accepted: the step of its task under the lock changes nothing but the
  entry of the candidate in \<open>alphaProcessed_\<close>, and the step committed by a whole execution
  is not the one of this candidate. After a baseline rollout that has not thrown, the
  line search does not throw, it returns in every execution that lets each task run to
  its end, and when no candidate is accepted it returns \<open>\<alpha>\<^sup>* = 0\<close> with the results of
  the baseline rollout.
\<close>

theorem lineSearch_confines_thrown_rollout:
  assumes ok: "lineSearch_settings_ok st"
    and mlr: "maxLearningRateMember s = maxLearningRate st"
    and nk: "\<not> killIntegration s"
    and base: "baselineRollout ev st iter s = Inr sb"
    and thrown: "evaluation_throws ev
                   (incrementBiasStock (numPartitions s) (candidateRate st s j) (nominalControllersStock s))"
    and bound: "nominalTotalCost sb * (1 - 0.001 * candidateRate st s j) \<le> scalar_max"
  shows "(ls_fair st events \<longrightarrow> (\<exists>s'. lineSearch ev st eps iter l0 events s = Some (Inr s')))
    \<and> (\<forall>e. lineSearch ev st eps iter l0 events s \<noteq> Some (Inl e))
    \<and> (\<forall>s'. lineSearch ev st eps iter l0 events s = Some (Inr s') \<longrightarrow>
          learningRateStar s' \<noteq> candidateRate st s j
          \<and> (learningRateStar s' = 0 \<or> (\<forall>i. \<not> passes ev st iter s' i) \<longrightarrow>
                learningRateStar s' = 0 \<and> nominalTotalCost s' = nominalTotalCost sb
                \<and> nominalTrajectoriesStock s' = nominalTrajectoriesStock sb))
    \<and> (\<forall>l. l_totalCost (lineSearchWorker ev st iter (numPartitions s) (candidateRate st s j)
                  (l\<lparr>l_controllersStock := nominalControllersStock s\<rparr>)) = scalar_max)
    \<and> (\<forall>sh t intr. place t = AtLock j (candidateRate st s j)
           \<and> l_totalCost (locals t) = scalar_max
           \<and> baselineTotalCost sh = nominalTotalCost sb
         \<longrightarrow> lineSearchTask_step ev st iter intr (sh, t)
             = (sh\<lparr>alphaProcessed := (alphaProcessed sh)[j := True]\<rparr>, t\<lparr>place := AtLoopHead\<rparr>))"
proof -
  let ?a = "candidateRate st s j"
  let ?run = "lineSearch ev st eps iter l0 events s"
  from ok mlr have apos: "0 < ?a"
    by (simp add: candidateRate_def lineSearch_settings_ok_def)
  have noerr: "?run \<noteq> Some (Inl e)" for e
    using lineSearch_baseline_cases[of ev st iter s] base
    by (auto simp: lineSearch_def split: if_splits prod.splits)
  have complete: "\<exists>s'. ?run = Some (Inr s')" if "ls_fair st events"
  proof -
    from lineSearch_completes[OF ok mlr that, of ev eps iter l0]
    obtain r where r: "?run = Some r" by blast
    with noerr show ?thesis by (cases r) auto
  qed
  have worker: "l_totalCost (lineSearchWorker ev st iter (numPartitions s) ?a
                  (l\<lparr>l_controllersStock := nominalControllersStock s\<rparr>)) = scalar_max" for l
    using thrown by (intro lineSearchWorker_thrown) simp
  have step: "lineSearchTask_step ev st iter intr (sh, t)
             = (sh\<lparr>alphaProcessed := (alphaProcessed sh)[j := True]\<rparr>, t\<lparr>place := AtLoopHead\<rparr>)"
    if "place t = AtLock j ?a" "l_totalCost (locals t) = scalar_max"
      "baselineTotalCost sh = nominalTotalCost sb" for sh t intr
    using that bound by (intro lineSearchTask_step_rejected) simp_all
  have result: "learningRateStar s' \<noteq> ?a
          \<and> (learningRateStar s' = 0 \<or> (\<forall>i. \<not> passes ev st iter s' i) \<longrightarrow>
                learningRateStar s' = 0 \<and> nominalTotalCost s' = nominalTotalCost sb
                \<and> nominalTrajectoriesStock s' = nominalTrajectoriesStock sb)"
    if ret: "?run = Some (Inr s')" for s'
  proof (cases "maxLearningRate st < eps")
    case True
    from lineSearch_early[OF True, of ev iter s l0 events] ret base apos show ?thesis
      by auto
  next
    case False
    from lineSearch_searched[OF ok mlr nk False ret] base
    have fr: "baselineTotalCost s' = nominalTotalCost sb"
        "maxLearningRateMember s' = maxLearningRate st"
        "initLScontrollersStock s' = nominalControllersStock s" "numPartitions s' = numPartitions s"
      and par: "ls_params_ok st s'"
      and star: "learningRateStar s' = 0 \<and> nominalTotalCost s' = nominalTotalCost sb
                  \<and> nominalTrajectoriesStock s' = nominalTrajectoriesStock sb
                \<or> 0 < learningRateStar s'
                  \<and> (\<exists>i. learningRateStar s' = candidateRate st s' i \<and> passes ev st iter s' i
                         \<and> nominalTotalCost s' = candidateMerit ev st iter s' (candidateRate st s' i))"
      by auto
    have rate: "candidateRate st s' j = ?a" by (simp add: candidateRate_def fr mlr)
    have "candidateMerit ev st iter s' (candidateRate st s' j) = scalar_max"
      using thrown unfolding rate by (intro candidateMerit_thrown) (simp add: fr)
    with bound have np: "\<not> passes ev st iter s' j"
      by (simp add: passes_def descends_def fr rate)
    have inj: "candidateRate st s' i \<noteq> candidateRate st s' j" if "i \<noteq> j" for i
      using candidateRate_strict[OF par, of i j] candidateRate_strict[OF par, of j i] that
      by (cases "i < j") auto
    have "learningRateStar s' \<noteq> ?a"
    proof
      assume "learningRateStar s' = ?a"
      with apos star rate
      obtain i where "candidateRate st s' j = candidateRate st s' i" "passes ev st iter s' i"
        by auto
      with inj[of i] np show False by auto
    qed
    with star show ?thesis by auto
  qed
  from complete noerr result worker step show ?thesis by blast
qed

theorem lineSearch_confines_thrown_rollout_witness:
  "lineSearch_settings_ok demoSettings
   \<and> ls_fair demoSettings demoSequential
   \<and> ev_rollout costlyEvaluator (incrementBiasStock 1 1 [demoController 0 50])
       = Inr (FpFinite 1, [demoTrajectory 50])
   \<and> ev_constraintsISE costlyEvaluator [demoTrajectory 50] = Inr demoISE
   \<and> ev_cost costlyEvaluator [demoTrajectory 50] = Inl (Thrown ''cost'')
   \<and> (\<exists>s'. lineSearch costlyEvaluator demoSettings demoEpsilon 1 demoLocals demoSequential
             (demoMembers [demoController 0 50] [demoTrajectory 0]) = Some (Inr s')
        \<and> learningRateStar s' \<noteq> 1)"
proof -
  let ?s = "demoMembers [demoController 0 50] [demoTrajectory 0]"
  from costly_baseline obtain sb where
    base: "baselineRollout costlyEvaluator demoSettings 1 ?s = Inr sb" and sb: "nominalTotalCost sb = 10"
    by blast
  have mlr: "maxLearningRateMember ?s = maxLearningRate demoSettings"
    and nk: "\<not> killIntegration ?s"
    by (simp_all add: demoMembers_def demoSettings_def)
  have rate: "candidateRate demoSettings ?s 0 = 1"
    by (simp add: candidateRate_def demoMembers_def)
  have mem: "numPartitions ?s = 1" "nominalControllersStock ?s = [demoController 0 50]"
    by (simp_all add: demoMembers_def)
  have ro: "ev_rollout costlyEvaluator (incrementBiasStock 1 1 [demoController 0 50])
            = Inr (FpFinite 1, [demoTrajectory 50])"
    by (simp add: costlyEvaluator_def demoEvaluator_def demoRollout_def incrementBiasStock_def
        incrementBias_def vector_axpy_def demoController_def demoTrajectory_def)
  have ise: "ev_constraintsISE costlyEvaluator [demoTrajectory 50] = Inr demoISE"
    by (simp add: costlyEvaluator_def demoEvaluator_def)
  have cost: "ev_cost costlyEvaluator [demoTrajectory 50] = Inl (Thrown ''cost'')"
    by (simp add: costlyEvaluator_def demoCost_def demoTrajectory_def)
  have thrown: "evaluation_throws costlyEvaluator
       (incrementBiasStock (numPartitions ?s) (candidateRate demoSettings ?s 0) (nominalControllersStock ?s))"
    unfolding rate mem evaluation_throws_def ro by (simp add: ise cost)
  have bound: "nominalTotalCost sb * (1 - 0.001 * candidateRate demoSettings ?s 0) \<le> scalar_max"
    using scalar_max_large by (simp add: rate sb)
  have "nThreads demoSettings = 2" by (simp add: demoSettings_def)
  then have fair: "ls_fair demoSettings demoSequential"
    by (simp add: ls_fair_def maxNumOfLineSearches_demo steps_of_def demoSequential_def
        eval_nat_numeral)
  from lineSearch_confines_thrown_rollout[OF demoSettings_ok mlr nk base thrown bound,
      of demoSequential demoEpsilon demoLocals]
    fair demoSettings_ok ro ise cost rate
  show ?thesis by auto
qed

text \<open>
  The claim as the spec states it fails: the merit of a thrown rollout is finite. With the
  lowest finite scalar as the baseline merit and the learning rate 3000, the threshold is
  twice the largest finite scalar, and the candidate is committed although its rollout has
  thrown.
\<close>

theorem lineSearch_accepts_thrown_rollout:
  "ev_rollout lowEvaluator (incrementBiasStock 1 3000 [demoController 0 1]) = Inl (RolloutUnstable, [])
   \<and> (\<exists>s'. lineSearch lowEvaluator lowSettings demoEpsilon 1 demoLocals (replicate 5 (Run 0) @ [Run 1])
             ((demoMembers [demoController 0 1] [demoTrajectory 0])\<lparr>maxLearningRateMember := 3000\<rparr>)
           = Some (Inr s')
        \<and> baselineTotalCost s' = - scalar_max
        \<and> learningRateStar s' = 3000
        \<and> nominalTotalCost s' = scalar_max)"
  using scalar_max_large
  by (simp add: demo_run_defs lowSettings_candidates lowEvaluator_def lowSettings_def)


end
